theory Spec2Isabelle
  imports Main
begin

section \<open>The todo store (src/shared/stores/index.ts)\<close>

text \<open>
  The store is a zustand store written with immer: every action is a function from the
  state to the state. JavaScript numbers that count or stamp time are modelled as
  \<open>int\<close>; an optional property is an \<open>option\<close>.
\<close>

datatype priority = Low | Medium | High

text \<open>
  \<open>OptimisticTodo\<close>: a \<open>Todo\<close> with the two transient properties. A property holds a
  value or is \<open>undefined\<close> (\<open>None\<close>). The type \<open>Todo\<close> gives a value to every
  property but \<open>description\<close> and \<open>due_date\<close>; all the same, a spread of a
  \<open>Partial<Todo>\<close> can store \<open>undefined\<close> in any of them.
\<close>

record todo =
  todo_id :: "string option"
  user_id :: "string option"
  title :: "string option"
  description :: "string option"
  completed :: "bool option"
  priority :: "priority option"
  due_date :: "int option"
  created_at :: "int option"
  updated_at :: "int option"
  synced :: "bool option"
  isOptimistic :: "bool option"
  originalId :: "string option"

text \<open>
  \<open>Partial<Todo>\<close>: each key is absent, or present with the value \<open>undefined\<close>, or
  present with a value of the property's type.
\<close>

datatype 'a key = Absent | Undefined | Value 'a

record todo_updates =
  upd_id :: "string key"
  upd_user_id :: "string key"
  upd_title :: "string key"
  upd_description :: "string key"
  upd_completed :: "bool key"
  upd_priority :: "priority key"
  upd_due_date :: "int key"
  upd_created_at :: "int key"
  upd_updated_at :: "int key"
  upd_synced :: "bool key"

text \<open>\<open>Omit<Todo, 'id' | 'created_at' | 'updated_at' | 'synced'>\<close>, the argument of \<open>optimisticAdd\<close>.\<close>

record todo_data =
  new_user_id :: string
  new_title :: string
  new_description :: "string option"
  new_completed :: bool
  new_priority :: priority
  new_due_date :: "int option"

record todo_filters =
  f_completed :: "bool option"
  f_priority :: "priority option"
  f_user_id :: "string option"
  f_search :: "string option"
  f_due_date_from :: "int option"
  f_due_date_to :: "int option"
  f_limit :: "int option"
  f_offset :: "int option"

record todo_stats =
  s_total :: int
  s_completed :: int
  s_pending :: int
  s_overdue :: int

record todo_state =
  todos :: "todo list"
  filters :: todo_filters
  isLoading :: bool
  isCreating :: bool
  isUpdating :: bool
  isDeleting :: bool
  error :: "string option"
  stats :: todo_stats

definition defaultFilters :: todo_filters where
  "defaultFilters = \<lparr> f_completed = None, f_priority = None, f_user_id = None,
     f_search = None, f_due_date_from = None, f_due_date_to = None,
     f_limit = Some 50, f_offset = Some 0 \<rparr>"

definition initial_todo_state :: todo_state where
  "initial_todo_state = \<lparr> todos = [], filters = defaultFilters, isLoading = False,
     isCreating = False, isUpdating = False, isDeleting = False, error = None,
     stats = \<lparr> s_total = 0, s_completed = 0, s_pending = 0, s_overdue = 0 \<rparr> \<rparr>"

text \<open>\<open>Array.prototype.findIndex\<close>: the first index whose element passes, \<open>None\<close> for -1.\<close>

fun findIndex :: "('a \<Rightarrow> bool) \<Rightarrow> 'a list \<Rightarrow> nat option" where
  "findIndex p [] = None"
| "findIndex p (x # xs) = (if p x then Some 0 else map_option Suc (findIndex p xs))"

text \<open>\<open>xs.splice(i, 1)\<close> for an index inside the array.\<close>

definition splice1 :: "nat \<Rightarrow> 'a list \<Rightarrow> 'a list" where
  "splice1 i xs = take i xs @ drop (Suc i) xs"

text \<open>The test \<open>if (todo.completed)\<close>: \<open>undefined\<close> is falsy.\<close>

definition truthy :: "bool option \<Rightarrow> bool" where
  "truthy b = (b = Some True)"

text \<open>
  One property of the spread \<open>{ ...t, ...updates }\<close>: an absent key keeps the old
  value, a present key overwrites it, also with \<open>undefined\<close>.
\<close>

definition spread_key :: "'a option \<Rightarrow> 'a key \<Rightarrow> 'a option" where
  "spread_key old k = (case k of Absent \<Rightarrow> old | Undefined \<Rightarrow> None | Value v \<Rightarrow> Some v)"

definition spread :: "todo \<Rightarrow> todo_updates \<Rightarrow> todo" where
  "spread t u = t\<lparr>
     todo_id := spread_key (todo_id t) (upd_id u),
     user_id := spread_key (user_id t) (upd_user_id u),
     title := spread_key (title t) (upd_title u),
     description := spread_key (description t) (upd_description u),
     completed := spread_key (completed t) (upd_completed u),
     priority := spread_key (priority t) (upd_priority u),
     due_date := spread_key (due_date t) (upd_due_date u),
     created_at := spread_key (created_at t) (upd_created_at u),
     updated_at := spread_key (updated_at t) (upd_updated_at u),
     synced := spread_key (synced t) (upd_synced u) \<rparr>"

text \<open>
  The counter adjustment shared by \<open>updateTodo\<close> and \<open>optimisticUpdate\<close>:
  \<open>if (updates.completed !== undefined && updates.completed !== oldCompleted)\<close>.
  \<open>updates.completed\<close> reads \<open>undefined\<close> for an absent key and for a key that
  holds \<open>undefined\<close>; \<open>oldCompleted\<close> may be \<open>undefined\<close> as well.
\<close>

definition adjust_completed :: "bool key \<Rightarrow> bool option \<Rightarrow> todo_stats \<Rightarrow> todo_stats" where
  "adjust_completed uc oldCompleted st =
     (case uc of
        Absent \<Rightarrow> st
      | Undefined \<Rightarrow> st
      | Value c \<Rightarrow>
          if Some c \<noteq> oldCompleted then
            (if c then st\<lparr> s_completed := s_completed st + 1, s_pending := s_pending st - 1 \<rparr>
             else st\<lparr> s_completed := s_completed st - 1, s_pending := s_pending st + 1 \<rparr>)
          else st)"

text \<open>The counter adjustment of an insertion (\<open>addTodo\<close>, \<open>optimisticAdd\<close>).\<close>

definition count_added :: "todo \<Rightarrow> todo_stats \<Rightarrow> todo_stats" where
  "count_added t st =
     (if truthy (completed t)
      then st\<lparr> s_total := s_total st + 1, s_completed := s_completed st + 1 \<rparr>
      else st\<lparr> s_total := s_total st + 1, s_pending := s_pending st + 1 \<rparr>)"

text \<open>The counter adjustment of a removal (\<open>deleteTodo\<close>, \<open>optimisticDelete\<close>, \<open>revertOptimistic\<close>).\<close>

definition count_removed :: "todo \<Rightarrow> todo_stats \<Rightarrow> todo_stats" where
  "count_removed t st =
     (if truthy (completed t)
      then st\<lparr> s_total := s_total st - 1, s_completed := s_completed st - 1 \<rparr>
      else st\<lparr> s_total := s_total st - 1, s_pending := s_pending st - 1 \<rparr>)"

definition addTodo :: "todo \<Rightarrow> todo_state \<Rightarrow> todo_state" where
  "addTodo t s = s\<lparr> todos := t # todos s, stats := count_added t (stats s) \<rparr>"

definition updateTodo :: "string \<Rightarrow> todo_updates \<Rightarrow> todo_state \<Rightarrow> todo_state" where
  "updateTodo i updates s =
     (case findIndex (\<lambda>t. todo_id t = Some i) (todos s) of
        None \<Rightarrow> s
      | Some index \<Rightarrow>
          let oldCompleted = completed (todos s ! index) in
          s\<lparr> todos := (todos s)[index := spread (todos s ! index) updates],
             stats := adjust_completed (upd_completed updates) oldCompleted (stats s) \<rparr>)"

definition deleteTodo :: "string \<Rightarrow> todo_state \<Rightarrow> todo_state" where
  "deleteTodo i s =
     (case findIndex (\<lambda>t. todo_id t = Some i) (todos s) of
        None \<Rightarrow> s
      | Some index \<Rightarrow>
          let t = todos s ! index in
          s\<lparr> todos := splice1 index (todos s), stats := count_removed t (stats s) \<rparr>)"

text \<open>
  \<open>optimisticAdd\<close> builds the temporary id from the clock and \<open>Math.random\<close>; both are
  inputs here (\<open>tempId\<close>, and \<open>now\<close> for the two time stamps). It returns the id.
\<close>

definition optimisticTodo :: "string \<Rightarrow> int \<Rightarrow> todo_data \<Rightarrow> todo" where
  "optimisticTodo tempId now d = \<lparr> todo_id = Some tempId, user_id = Some (new_user_id d),
     title = Some (new_title d), description = new_description d,
     completed = Some (new_completed d), priority = Some (new_priority d),
     due_date = new_due_date d, created_at = Some now, updated_at = Some now,
     synced = Some False, isOptimistic = Some True, originalId = None \<rparr>"

definition optimisticAdd :: "string \<Rightarrow> int \<Rightarrow> todo_data \<Rightarrow> todo_state \<Rightarrow> string \<times> todo_state" where
  "optimisticAdd tempId now d s =
     (let t = optimisticTodo tempId now d in
      (tempId, s\<lparr> todos := t # todos s, stats := count_added t (stats s) \<rparr>))"

text \<open>\<open>_originalId: old._originalId || old.id\<close>: \<open>undefined\<close> and the empty string are falsy.\<close>

definition original_or_id :: "todo \<Rightarrow> string option" where
  "original_or_id t =
     (case originalId t of
        None \<Rightarrow> todo_id t
      | Some v \<Rightarrow> if v = [] then todo_id t else Some v)"

definition optimisticUpdate :: "string \<Rightarrow> todo_updates \<Rightarrow> todo_state \<Rightarrow> todo_state" where
  "optimisticUpdate i updates s =
     (case findIndex (\<lambda>t. todo_id t = Some i) (todos s) of
        None \<Rightarrow> s
      | Some index \<Rightarrow>
          let old = todos s ! index;
              oldCompleted = completed old in
          s\<lparr> todos := (todos s)[index := (spread old updates)\<lparr>
                 isOptimistic := Some True, originalId := original_or_id old \<rparr>],
             stats := adjust_completed (upd_completed updates) oldCompleted (stats s) \<rparr>)"

definition optimisticDelete :: "string \<Rightarrow> todo_state \<Rightarrow> todo_state" where
  "optimisticDelete i s =
     (case findIndex (\<lambda>t. todo_id t = Some i) (todos s) of
        None \<Rightarrow> s
      | Some index \<Rightarrow>
          let t = todos s ! index in
          s\<lparr> todos := splice1 index (todos s), stats := count_removed t (stats s) \<rparr>)"

definition revertOptimistic :: "string \<Rightarrow> todo_state \<Rightarrow> todo_state" where
  "revertOptimistic tempId s =
     (case findIndex (\<lambda>t. todo_id t = Some tempId) (todos s) of
        None \<Rightarrow> s
      | Some index \<Rightarrow>
          let t = todos s ! index in
          s\<lparr> todos := splice1 index (todos s), stats := count_removed t (stats s) \<rparr>)"

definition confirmOptimistic :: "string \<Rightarrow> todo \<Rightarrow> todo_state \<Rightarrow> todo_state" where
  "confirmOptimistic tempId realTodo s =
     (case findIndex (\<lambda>t. todo_id t = Some tempId) (todos s) of
        None \<Rightarrow> s
      | Some index \<Rightarrow> s\<lparr> todos := (todos s)[index := realTodo] \<rparr>)"

text \<open>
  \<open>calculateStats\<close>: the full recomputation. \<open>now\<close> is \<open>Date.now()\<close>. The test
  \<open>todo.due_date && todo.due_date < now\<close> is false for an absent date and for 0.
\<close>

definition is_overdue :: "int \<Rightarrow> todo \<Rightarrow> bool" where
  "is_overdue now t = (case due_date t of None \<Rightarrow> False | Some d \<Rightarrow> d \<noteq> 0 \<and> d < now)"

definition stats_step :: "int \<Rightarrow> todo \<Rightarrow> todo_stats \<Rightarrow> todo_stats" where
  "stats_step now t st =
     (if truthy (completed t) then st\<lparr> s_completed := s_completed st + 1 \<rparr>
      else (let st' = st\<lparr> s_pending := s_pending st + 1 \<rparr> in
            if is_overdue now t then st'\<lparr> s_overdue := s_overdue st' + 1 \<rparr> else st'))"

definition calculateStats :: "int \<Rightarrow> todo list \<Rightarrow> todo_stats" where
  "calculateStats now ts =
     fold (stats_step now) ts
       \<lparr> s_total = int (length ts), s_completed = 0, s_pending = 0, s_overdue = 0 \<rparr>"

definition setTodos :: "int \<Rightarrow> todo list \<Rightarrow> todo_state \<Rightarrow> todo_state" where
  "setTodos now ts s = s\<lparr> todos := ts, stats := calculateStats now ts \<rparr>"

definition updateStats :: "int \<Rightarrow> todo_state \<Rightarrow> todo_state" where
  "updateStats now s = s\<lparr> stats := calculateStats now (todos s) \<rparr>"

text \<open>A sequence of optimistic operations on the store.\<close>

datatype store_op =
    OpAdd string int todo_data
  | OpUpdate string todo_updates
  | OpDelete string
  | OpConfirm string todo
  | OpRevert string

fun apply_op :: "store_op \<Rightarrow> todo_state \<Rightarrow> todo_state" where
  "apply_op (OpAdd tempId now d) s = snd (optimisticAdd tempId now d s)"
| "apply_op (OpUpdate i u) s = optimisticUpdate i u s"
| "apply_op (OpDelete i) s = optimisticDelete i s"
| "apply_op (OpConfirm tempId r) s = confirmOptimistic tempId r s"
| "apply_op (OpRevert tempId) s = revertOptimistic tempId s"

fun run_ops :: "store_op list \<Rightarrow> todo_state \<Rightarrow> todo_state" where
  "run_ops [] s = s"
| "run_ops (x # xs) s = run_ops xs (apply_op x s)"

text \<open>
  The three counters that the store maintains incrementally, compared with the full
  recomputation. \<open>overdue\<close> is left out: no action other than \<open>setTodos\<close> and
  \<open>updateStats\<close> writes it.
\<close>

definition counts_agree :: "int \<Rightarrow> todo_state \<Rightarrow> bool" where
  "counts_agree now s =
     (s_total (stats s) = s_total (calculateStats now (todos s)) \<and>
      s_completed (stats s) = s_completed (calculateStats now (todos s)) \<and>
      s_pending (stats s) = s_pending (calculateStats now (todos s)))"

text \<open>Every visible todo carries a boolean \<open>completed\<close>, as the type \<open>Todo\<close> promises.\<close>

definition completed_defined :: "todo_state \<Rightarrow> bool" where
  "completed_defined s = list_all (\<lambda>t. completed t \<noteq> None) (todos s)"

text \<open>
  The operations after which \<open>completed\<close> and \<open>pending\<close> are still right: an update
  that does not carry the key \<open>completed\<close> with the value \<open>undefined\<close>, and a
  confirmation by a todo with the \<open>completed\<close> value of the entry it replaces (or that
  replaces nothing). Additions, deletions and reverts always are.
\<close>

fun keeps_completed :: "store_op \<Rightarrow> todo_state \<Rightarrow> bool" where
  "keeps_completed (OpConfirm tempId r) s =
     (case findIndex (\<lambda>t. todo_id t = Some tempId) (todos s) of
        None \<Rightarrow> True
      | Some index \<Rightarrow> completed r = completed (todos s ! index))"
| "keeps_completed (OpUpdate i u) s = (upd_completed u \<noteq> Undefined)"
| "keeps_completed _ s = True"

fun ops_keep_completed :: "store_op list \<Rightarrow> todo_state \<Rightarrow> bool" where
  "ops_keep_completed [] s = True"
| "ops_keep_completed (x # xs) s =
     (keeps_completed x s \<and> ops_keep_completed xs (apply_op x s))"

section \<open>The sync store (zustand, held in memory only)\<close>

datatype sync_action_type = CREATE | UPDATE | DELETE

text \<open>
  \<open>data: any\<close>. The payload is an object, as \<open>syncActionSchema\<close> requires
  (\<open>z.record\<close>): its \<open>id\<close> property, which may be absent, and the rest of its content.
\<close>

record payload =
  data_id :: "string option"
  data_content :: string

record sync_action =
  action_id :: string
  action_type :: sync_action_type
  table :: string
  data :: payload
  timestamp :: int
  retries :: "int option"

record sync_status =
  last_sync_time :: "int option"
  pending_actions :: int
  is_syncing :: bool
  last_error :: "string option"

record sync_state =
  status :: sync_status
  queue :: "sync_action list"
  autoSyncEnabled :: bool
  syncInterval :: int
  totalSynced :: int
  totalErrors :: int
  lastSyncDuration :: int

definition defaultStatus :: sync_status where
  "defaultStatus = \<lparr> last_sync_time = None, pending_actions = 0, is_syncing = False,
     last_error = None \<rparr>"

definition initial_sync_state :: sync_state where
  "initial_sync_state = \<lparr> status = defaultStatus, queue = [], autoSyncEnabled = True,
     syncInterval = 5 * 60 * 1000, totalSynced = 0, totalErrors = 0, lastSyncDuration = 0 \<rparr>"

definition setSyncing :: "bool \<Rightarrow> sync_state \<Rightarrow> sync_state" where
  "setSyncing b s = s\<lparr> status := (status s)\<lparr> is_syncing := b \<rparr> \<rparr>"

definition setError :: "string option \<Rightarrow> sync_state \<Rightarrow> sync_state" where
  "setError e s = s\<lparr> status := (status s)\<lparr> last_error := e \<rparr> \<rparr>"

text \<open>
  \<open>addToQueue\<close>: the id comes from \<open>Math.random\<close> and the time stamp from the clock;
  both are inputs here. Whatever \<open>retries\<close> the argument carries is overwritten by 0.
\<close>

definition addToQueue ::
  "string \<Rightarrow> int \<Rightarrow> sync_action_type \<Rightarrow> string \<Rightarrow> payload \<Rightarrow> sync_state \<Rightarrow> string \<times> sync_state" where
  "addToQueue new_id now ty tbl d s =
     (let action = \<lparr> action_id = new_id, action_type = ty, table = tbl, data = d,
                      timestamp = now, retries = Some 0 \<rparr> in
      (new_id, s\<lparr> queue := queue s @ [action],
                  status := (status s)\<lparr> pending_actions := int (length (queue s)) + 1 \<rparr> \<rparr>))"

definition removeFromQueue :: "string \<Rightarrow> sync_state \<Rightarrow> sync_state" where
  "removeFromQueue actionId s =
     (let newQueue = filter (\<lambda>a. action_id a \<noteq> actionId) (queue s) in
      s\<lparr> queue := newQueue,
         status := (status s)\<lparr> pending_actions := int (length newQueue) \<rparr> \<rparr>)"

text \<open>\<open>action.retries || 0\<close>.\<close>

definition retries_or_0 :: "sync_action \<Rightarrow> int" where
  "retries_or_0 a = (case retries a of None \<Rightarrow> 0 | Some n \<Rightarrow> n)"

definition incrementRetries :: "string \<Rightarrow> sync_state \<Rightarrow> sync_state" where
  "incrementRetries actionId s =
     s\<lparr> queue := map (\<lambda>a. if action_id a = actionId
                             then a\<lparr> retries := Some (retries_or_0 a + 1) \<rparr> else a) (queue s) \<rparr>"

definition getPendingActions :: "sync_state \<Rightarrow> sync_action list" where
  "getPendingActions s = filter (\<lambda>a. retries_or_0 a < 3) (queue s)"

definition getFailedActions :: "sync_state \<Rightarrow> sync_action list" where
  "getFailedActions s = filter (\<lambda>a. retries_or_0 a \<ge> 3) (queue s)"

section \<open>The sync service (src/shared/services/sync.ts)\<close>

text \<open>
  The MMKV store holds text. A stored text is represented by what the code can observe
  of it: it is empty (falsy), or \<open>JSON.parse\<close> rejects it, or \<open>JSON.parse\<close> returns a
  value. For the key \<open>sync_queue\<close> the parsed value is
  \<^item> an array, whose elements are actions, as \<open>setSyncQueue\<close> writes them; or
  \<^item> a JSON string, which \<open>for ... of\<close> iterates character by character and which
    has no \<open>push\<close> and no \<open>filter\<close>; or
  \<^item> another JSON value (an object, a number, a boolean, \<open>null\<close>), on which
    \<open>push\<close>, \<open>filter\<close> and \<open>for ... of\<close> raise a \<open>TypeError\<close>.
  For the key \<open>app_config\<close> the parsed value is
  \<^item> an object, of which \<open>lastSyncTime\<close> is modelled; or
  \<^item> an array, which takes the assignment of \<open>lastSyncTime\<close> and loses it again when
    \<open>JSON.stringify\<close> writes the array; or
  \<^item> \<open>null\<close> or a primitive value, on which the assignment raises a \<open>TypeError\<close>
    (the module is strict code).
\<close>

datatype error = TypeError | DatabaseError

datatype parsed = Queue "sync_action list" | Json_string string | Non_array

datatype 'a stored = Empty_text | Malformed | Wellformed 'a

record config =
  lastSyncTime :: "int option"

datatype parsed_config = Config_object config | Config_array | Not_object

datatype http_method = POST | PUT | HTTP_DELETE

record db_row =
  row_id :: string
  row_synced :: bool
  row_columns :: string

record database =
  db_users :: "db_row list"
  db_todos :: "db_row list"

datatype db_table = Users | Todos

datatype body = Payload_body payload | Row_body db_row

record request =
  req_method :: http_method
  req_path :: string
  req_body :: "body option"

text \<open>
  Everything the service reads and writes: its own flag, the two MMKV keys, the network
  state, the SQLite handle (\<open>None\<close> before \<open>init\<close>), the requests sent so far (oldest
  first), and the two zustand stores of the application. \<open>syncing_seen\<close> keeps, for
  each request sent, the value that \<open>isSyncing\<close> had when it was sent: what
  \<open>isSyncInProgress()\<close> and the guard of another call read while that request is
  pending.
\<close>

record world =
  isSyncing :: bool
  sync_queue :: "parsed stored option"
  app_config :: "parsed_config stored option"
  isInternetReachable :: "bool option"
  db :: "database option"
  requests :: "request list"
  syncing_seen :: "bool list"
  todoStore :: todo_state
  syncStore :: sync_state

text \<open>
  The remote authority: the answer to the request sent after \<open>k\<close> earlier ones.
  \<open>True\<close> is \<open>response.ok\<close>; \<open>False\<close> is a response that is not ok or a \<open>fetch\<close>
  that raised (each caller catches it and returns false).
\<close>

type_synonym remote = "nat \<Rightarrow> request \<Rightarrow> bool"

record sync_options =
  forceSync :: "bool option"
  timeout :: "int option"
  retryAttempts :: "int option"

definition no_options :: sync_options where
  "no_options = \<lparr> forceSync = None, timeout = None, retryAttempts = None \<rparr>"

subsection \<open>SyncStorageService\<close>

definition getAppConfig :: "world \<Rightarrow> parsed_config" where
  "getAppConfig w =
     (case app_config w of
        None \<Rightarrow> Config_object \<lparr> lastSyncTime = None \<rparr>
      | Some Empty_text \<Rightarrow> Config_object \<lparr> lastSyncTime = None \<rparr>
      | Some Malformed \<Rightarrow> Config_object \<lparr> lastSyncTime = None \<rparr>
      | Some (Wellformed v) \<Rightarrow> v)"

definition setAppConfig :: "parsed_config \<Rightarrow> world \<Rightarrow> world" where
  "setAppConfig c w = w\<lparr> app_config := Some (Wellformed c) \<rparr>"

definition getSyncQueue :: "world \<Rightarrow> parsed" where
  "getSyncQueue w =
     (case sync_queue w of
        None \<Rightarrow> Queue []
      | Some Empty_text \<Rightarrow> Queue []
      | Some Malformed \<Rightarrow> Queue []
      | Some (Wellformed v) \<Rightarrow> v)"

definition setSyncQueue :: "sync_action list \<Rightarrow> world \<Rightarrow> world" where
  "setSyncQueue q w = w\<lparr> sync_queue := Some (Wellformed (Queue q)) \<rparr>"

definition addToSyncQueue :: "sync_action \<Rightarrow> world \<Rightarrow> error + world" where
  "addToSyncQueue action w =
     (case getSyncQueue w of
        Non_array \<Rightarrow> Inl TypeError
      | Json_string t \<Rightarrow> Inl TypeError
      | Queue q \<Rightarrow> Inr (setSyncQueue (q @ [action]) w))"

definition removeFromSyncQueue :: "string \<Rightarrow> world \<Rightarrow> error + world" where
  "removeFromSyncQueue actionId w =
     (case getSyncQueue w of
        Non_array \<Rightarrow> Inl TypeError
      | Json_string t \<Rightarrow> Inl TypeError
      | Queue q \<Rightarrow> Inr (setSyncQueue (filter (\<lambda>a. action_id a \<noteq> actionId) q) w))"

subsection \<open>networkService and dbService, as far as the service uses them\<close>

definition hasInternetAccess :: "world \<Rightarrow> bool" where
  "hasInternetAccess w = (isInternetReachable w = Some True)"

definition getUnsyncedUsers :: "world \<Rightarrow> error + db_row list" where
  "getUnsyncedUsers w =
     (case db w of
        None \<Rightarrow> Inl DatabaseError
      | Some d \<Rightarrow> Inr (filter (\<lambda>r. \<not> row_synced r) (db_users d)))"

definition getUnsyncedTodos :: "world \<Rightarrow> error + db_row list" where
  "getUnsyncedTodos w =
     (case db w of
        None \<Rightarrow> Inl DatabaseError
      | Some d \<Rightarrow> Inr (filter (\<lambda>r. \<not> row_synced r) (db_todos d)))"

definition set_synced :: "string \<Rightarrow> db_row list \<Rightarrow> db_row list" where
  "set_synced i rows = map (\<lambda>r. if row_id r = i then r\<lparr> row_synced := True \<rparr> else r) rows"

definition markAsSynced :: "db_table \<Rightarrow> string \<Rightarrow> world \<Rightarrow> error + world" where
  "markAsSynced t i w =
     (case db w of
        None \<Rightarrow> Inl DatabaseError
      | Some d \<Rightarrow>
          Inr (w\<lparr> db := Some (case t of
                                 Users \<Rightarrow> d\<lparr> db_users := set_synced i (db_users d) \<rparr>
                               | Todos \<Rightarrow> d\<lparr> db_todos := set_synced i (db_todos d) \<rparr>) \<rparr>))"

subsection \<open>SyncService\<close>

text \<open>One \<open>fetch\<close>: the request is sent, and the remote authority answers.\<close>

definition fetch_ok :: "remote \<Rightarrow> request \<Rightarrow> world \<Rightarrow> bool \<times> world" where
  "fetch_ok remote r w =
     (remote (length (requests w)) r,
      w\<lparr> requests := requests w @ [r], syncing_seen := syncing_seen w @ [isSyncing w] \<rparr>)"

text \<open>The text of \<open>${data.id}\<close> in a URL.\<close>

definition id_text :: "string option \<Rightarrow> string" where
  "id_text i = (case i of None \<Rightarrow> ''undefined'' | Some v \<Rightarrow> v)"

definition create_request :: "string \<Rightarrow> payload \<Rightarrow> request" where
  "create_request tbl d =
     \<lparr> req_method = POST, req_path = ''/'' @ tbl, req_body = Some (Payload_body d) \<rparr>"

definition update_request :: "string \<Rightarrow> payload \<Rightarrow> request" where
  "update_request tbl d =
     \<lparr> req_method = PUT, req_path = ''/'' @ tbl @ ''/'' @ id_text (data_id d),
       req_body = Some (Payload_body d) \<rparr>"

definition delete_request :: "string \<Rightarrow> string option \<Rightarrow> request" where
  "delete_request tbl i =
     \<lparr> req_method = HTTP_DELETE, req_path = ''/'' @ tbl @ ''/'' @ id_text i, req_body = None \<rparr>"

definition createOnServer :: "remote \<Rightarrow> string \<Rightarrow> payload \<Rightarrow> world \<Rightarrow> bool \<times> world" where
  "createOnServer remote tbl d w = fetch_ok remote (create_request tbl d) w"

definition updateOnServer :: "remote \<Rightarrow> string \<Rightarrow> payload \<Rightarrow> world \<Rightarrow> bool \<times> world" where
  "updateOnServer remote tbl d w = fetch_ok remote (update_request tbl d) w"

definition deleteOnServer :: "remote \<Rightarrow> string \<Rightarrow> string option \<Rightarrow> world \<Rightarrow> bool \<times> world" where
  "deleteOnServer remote tbl i w = fetch_ok remote (delete_request tbl i) w"

definition uploadUser :: "remote \<Rightarrow> db_row \<Rightarrow> world \<Rightarrow> bool \<times> world" where
  "uploadUser remote user w =
     fetch_ok remote \<lparr> req_method = POST, req_path = ''/users'', req_body = Some (Row_body user) \<rparr> w"

definition uploadTodo :: "remote \<Rightarrow> db_row \<Rightarrow> world \<Rightarrow> bool \<times> world" where
  "uploadTodo remote t w =
     fetch_ok remote \<lparr> req_method = POST, req_path = ''/todos'', req_body = Some (Row_body t) \<rparr> w"

definition processAction :: "remote \<Rightarrow> sync_action \<Rightarrow> world \<Rightarrow> bool \<times> world" where
  "processAction remote action w =
     (case action_type action of
        CREATE \<Rightarrow> createOnServer remote (table action) (data action) w
      | UPDATE \<Rightarrow> updateOnServer remote (table action) (data action) w
      | DELETE \<Rightarrow> deleteOnServer remote (table action) (data_id (data action)) w)"

text \<open>The request that \<open>processAction\<close> sends for an action.\<close>

definition dispatch_request :: "sync_action \<Rightarrow> request" where
  "dispatch_request action =
     (case action_type action of
        CREATE \<Rightarrow> create_request (table action) (data action)
      | UPDATE \<Rightarrow> update_request (table action) (data action)
      | DELETE \<Rightarrow> delete_request (table action) (data_id (data action)))"

text \<open>
  The body of the loop of \<open>processSyncQueue\<close> for one action of the array read at the
  start of the pass. The assignment \<open>action.retries = (action.retries || 0) + 1\<close> changes
  that array element only; the array is never written back to the store. An error
  raised by \<open>removeFromSyncQueue\<close> is caught inside the loop.
\<close>

definition process_one :: "remote \<Rightarrow> sync_action \<Rightarrow> world \<Rightarrow> world" where
  "process_one remote action w =
     (let (success, w1) = processAction remote action w in
      if success then
        (case removeFromSyncQueue (action_id action) w1 of Inl e \<Rightarrow> w1 | Inr w2 \<Rightarrow> w2)
      else
        (let action' = action\<lparr> retries := Some (retries_or_0 action + 1) \<rparr> in
         if retries_or_0 action' \<ge> 3 then
           (case removeFromSyncQueue (action_id action') w1 of Inl e \<Rightarrow> w1 | Inr w2 \<Rightarrow> w2)
         else w1))"

fun process_loop :: "remote \<Rightarrow> sync_action list \<Rightarrow> world \<Rightarrow> world" where
  "process_loop remote [] w = w"
| "process_loop remote (action # rest) w = process_loop remote rest (process_one remote action w)"

text \<open>
  The body of the loop for one character of a stored JSON string: \<open>processAction\<close>
  finds no \<open>type\<close>, logs a warning and returns false without a request; the
  assignment of \<open>retries\<close> to a primitive value then raises and is caught inside the
  loop. Nothing changes.
\<close>

definition process_character :: "char \<Rightarrow> world \<Rightarrow> world" where
  "process_character c w = w"

definition processSyncQueue :: "remote \<Rightarrow> world \<Rightarrow> error + world" where
  "processSyncQueue remote w =
     (case getSyncQueue w of
        Non_array \<Rightarrow> Inl TypeError
      | Json_string t \<Rightarrow> Inr (fold process_character t w)
      | Queue q \<Rightarrow> Inr (process_loop remote q w))"

text \<open>
  The two loops of \<open>uploadUnsyncedData\<close>. An error of \<open>markAsSynced\<close> leaves the loop;
  the result carries it together with the world reached.
\<close>

fun upload_users :: "remote \<Rightarrow> db_row list \<Rightarrow> world \<Rightarrow> error option \<times> world" where
  "upload_users remote [] w = (None, w)"
| "upload_users remote (user # rest) w =
     (let (success, w1) = uploadUser remote user w in
      if success then
        (case markAsSynced Users (row_id user) w1 of
           Inl e \<Rightarrow> (Some e, w1)
         | Inr w2 \<Rightarrow> upload_users remote rest w2)
      else upload_users remote rest w1)"

fun upload_todos :: "remote \<Rightarrow> db_row list \<Rightarrow> world \<Rightarrow> error option \<times> world" where
  "upload_todos remote [] w = (None, w)"
| "upload_todos remote (t # rest) w =
     (let (success, w1) = uploadTodo remote t w in
      if success then
        (case markAsSynced Todos (row_id t) w1 of
           Inl e \<Rightarrow> (Some e, w1)
         | Inr w2 \<Rightarrow> upload_todos remote rest w2)
      else upload_todos remote rest w1)"

definition uploadUnsyncedData :: "remote \<Rightarrow> world \<Rightarrow> world" where
  "uploadUnsyncedData remote w =
     (case getUnsyncedUsers w of
        Inl e \<Rightarrow> w
      | Inr unsyncedUsers \<Rightarrow>
          (case upload_users remote unsyncedUsers w of
             (Some e, w1) \<Rightarrow> w1
           | (None, w1) \<Rightarrow>
               (case getUnsyncedTodos w1 of
                  Inl e \<Rightarrow> w1
                | Inr unsyncedTodos \<Rightarrow> snd (upload_todos remote unsyncedTodos w1))))"

text \<open>
  The \<open>try\<close> block of \<open>syncPendingChanges\<close>; \<open>now\<close> is \<open>Date.now()\<close>. An error
  leaves the block; the result carries it together with the world reached:
  \<open>processSyncQueue\<close> raises before it has written anything, the assignment
  \<open>config.lastSyncTime = Date.now()\<close> raises after the queue and the uploads were
  processed.
\<close>

definition sync_try :: "remote \<Rightarrow> int \<Rightarrow> world \<Rightarrow> error option \<times> world" where
  "sync_try remote now w =
     (case processSyncQueue remote w of
        Inl e \<Rightarrow> (Some e, w)
      | Inr w1 \<Rightarrow>
          (let w2 = uploadUnsyncedData remote w1 in
           case getAppConfig w2 of
             Not_object \<Rightarrow> (Some TypeError, w2)
           | Config_array \<Rightarrow> (None, setAppConfig Config_array w2)
           | Config_object c \<Rightarrow>
               (None, setAppConfig (Config_object (c\<lparr> lastSyncTime := Some now \<rparr>)) w2)))"

text \<open>
  \<open>syncPendingChanges\<close> up to its \<open>finally\<close>: \<open>None\<close> when one of the two guards
  returns false before the \<open>try\<close> statement is entered; otherwise the flag is set, the
  \<open>try\<close> block runs, the \<open>catch\<close> turns an error into the result false, and the
  result comes with the world in which \<open>finally\<close> is about to run.
\<close>

definition sync_attempt ::
  "sync_options \<Rightarrow> remote \<Rightarrow> int \<Rightarrow> world \<Rightarrow> (bool \<times> world) option" where
  "sync_attempt options remote now w =
     (if isSyncing w \<and> forceSync options \<noteq> Some True then None
      else if \<not> hasInternetAccess w then None
      else
        (let w1 = w\<lparr> isSyncing := True \<rparr> in
         case sync_try remote now w1 of
           (None, w2) \<Rightarrow> Some (True, w2)
         | (Some e, w2) \<Rightarrow> Some (False, w2)))"

text \<open>\<open>syncPendingChanges\<close>: the above, and the \<open>finally\<close> that clears the flag.\<close>

definition syncPendingChanges :: "sync_options \<Rightarrow> remote \<Rightarrow> int \<Rightarrow> world \<Rightarrow> bool \<times> world" where
  "syncPendingChanges options remote now w =
     (case sync_attempt options remote now w of
        None \<Rightarrow> (False, w)
      | Some (result, w2) \<Rightarrow> (result, w2\<lparr> isSyncing := False \<rparr>))"

definition forcSync :: "remote \<Rightarrow> int \<Rightarrow> world \<Rightarrow> bool \<times> world" where
  "forcSync remote now w = syncPendingChanges (no_options\<lparr> forceSync := Some True \<rparr>) remote now w"

text \<open>
  \<open>SyncService.addToSyncQueue(type, table, data)\<close>; the random id and the clock are
  inputs.
\<close>

definition service_addToSyncQueue ::
  "string \<Rightarrow> int \<Rightarrow> sync_action_type \<Rightarrow> string \<Rightarrow> payload \<Rightarrow> world \<Rightarrow> error + world" where
  "service_addToSyncQueue new_id now ty tbl d w =
     addToSyncQueue \<lparr> action_id = new_id, action_type = ty, table = tbl, data = d,
                      timestamp = now, retries = Some 0 \<rparr> w"

text \<open>One enqueue request, and a sequence of them; the first error ends the sequence.\<close>

record enqueue =
  enq_id :: string
  enq_now :: int
  enq_type :: sync_action_type
  enq_table :: string
  enq_data :: payload

definition enqueued_action :: "enqueue \<Rightarrow> sync_action" where
  "enqueued_action e = \<lparr> action_id = enq_id e, action_type = enq_type e, table = enq_table e,
     data = enq_data e, timestamp = enq_now e, retries = Some 0 \<rparr>"

fun enqueue_all :: "enqueue list \<Rightarrow> world \<Rightarrow> error + world" where
  "enqueue_all [] w = Inr w"
| "enqueue_all (e # es) w =
     (case service_addToSyncQueue (enq_id e) (enq_now e) (enq_type e) (enq_table e) (enq_data e) w of
        Inl err \<Rightarrow> Inl err
      | Inr w1 \<Rightarrow> enqueue_all es w1)"

text \<open>
  A process restart: what lives in memory (the service's flag and the zustand stores
  created without \<open>persist\<close>) starts again from its initial value; the MMKV keys and
  the database keep their content.
\<close>

definition restart :: "world \<Rightarrow> world" where
  "restart w = w\<lparr> isSyncing := False, todoStore := initial_todo_state,
     syncStore := initial_sync_state \<rparr>"

text \<open>\<open>n\<close> sync passes one after the other, as the timer of \<open>setupAutoSync\<close> starts them.\<close>

fun sync_passes :: "nat \<Rightarrow> remote \<Rightarrow> int \<Rightarrow> world \<Rightarrow> world" where
  "sync_passes 0 remote now w = w"
| "sync_passes (Suc n) remote now w =
     sync_passes n remote now (snd (syncPendingChanges no_options remote now w))"

text \<open>
  What a step of a pass may do to the flag, to the two stores and to the record of the
  flag: it leaves the flag and the stores alone, and each request it sends is recorded
  with the flag as it was.
\<close>

definition flag_kept :: "world \<Rightarrow> world \<Rightarrow> bool" where
  "flag_kept w w' =
     (isSyncing w' = isSyncing w \<and> todoStore w' = todoStore w \<and> syncStore w' = syncStore w \<and>
      length (requests w) \<le> length (requests w') \<and>
      syncing_seen w' =
        syncing_seen w @ replicate (length (requests w') - length (requests w)) (isSyncing w))"

section \<open>Concrete inputs\<close>

text \<open>A todo that is open and past its due date at time 1000, and its confirmed form.\<close>

definition milk_data :: todo_data where
  "milk_data = \<lparr> new_user_id = ''u1'', new_title = ''Buy milk'', new_description = None,
     new_completed = False, new_priority = Medium, new_due_date = Some 500 \<rparr>"

definition milk_done :: todo where
  "milk_done = \<lparr> todo_id = Some ''srv_1'', user_id = Some ''u1'',
     title = Some ''Buy milk'', description = None, completed = Some True,
     priority = Some Medium, due_date = Some 500, created_at = Some 900,
     updated_at = Some 950, synced = Some True, isOptimistic = None,
     originalId = None \<rparr>"

definition no_updates :: todo_updates where
  "no_updates = \<lparr> upd_id = Absent, upd_user_id = Absent, upd_title = Absent,
     upd_description = Absent, upd_completed = Absent, upd_priority = Absent,
     upd_due_date = Absent, upd_created_at = Absent, upd_updated_at = Absent,
     upd_synced = Absent \<rparr>"

text \<open>The updates \<open>{ completed: b }\<close>, \<open>{ completed: undefined }\<close> and \<open>{ id: i }\<close>.\<close>

definition set_completed :: "bool \<Rightarrow> todo_updates" where
  "set_completed b = no_updates\<lparr> upd_completed := Value b \<rparr>"

definition unset_completed :: todo_updates where
  "unset_completed = no_updates\<lparr> upd_completed := Undefined \<rparr>"

definition rename_to :: "string \<Rightarrow> todo_updates" where
  "rename_to i = no_updates\<lparr> upd_id := Value i \<rparr>"

definition one_todo_store :: todo_state where
  "one_todo_store = snd (optimisticAdd ''temp_1'' 1000 milk_data initial_todo_state)"

text \<open>Two additions and a rename: two visible todos under the id \<open>temp_1\<close>.\<close>

definition two_under_one_id :: todo_state where
  "two_under_one_id =
     run_ops [OpAdd ''temp_1'' 1000 milk_data, OpAdd ''temp_2'' 1001 milk_data,
              OpUpdate ''temp_2'' (rename_to ''temp_1'')] initial_todo_state"

text \<open>A world just after start, online, with an empty database.\<close>

definition fresh_world :: world where
  "fresh_world = \<lparr> isSyncing = False, sync_queue = None, app_config = None,
     isInternetReachable = Some True, db = Some \<lparr> db_users = [], db_todos = [] \<rparr>,
     requests = [], syncing_seen = [], todoStore = initial_todo_state,
     syncStore = initial_sync_state \<rparr>"

definition milk_payload :: payload where
  "milk_payload = \<lparr> data_id = Some ''temp_1'', data_content = ''Buy milk'' \<rparr>"

definition create_milk :: sync_action where
  "create_milk = \<lparr> action_id = ''a1'', action_type = CREATE, table = ''todos'',
     data = milk_payload, timestamp = 1000, retries = Some 0 \<rparr>"

definition update_milk :: sync_action where
  "update_milk = \<lparr> action_id = ''a2'', action_type = UPDATE, table = ''todos'',
     data = milk_payload, timestamp = 1001, retries = Some 0 \<rparr>"

definition milk_row :: db_row where
  "milk_row = \<lparr> row_id = ''temp_1'', row_synced = False, row_columns = ''Buy milk'' \<rparr>"

text \<open>Remote authorities: one that never accepts, one that always accepts, and one that
  accepts the first request and no other, or every request but the first.\<close>

definition never_ok :: remote where
  "never_ok k r = False"

definition always_ok :: remote where
  "always_ok k r = True"

definition first_only :: remote where
  "first_only k r = (k = 0)"

definition all_but_first :: remote where
  "all_but_first k r = (k \<noteq> 0)"

text \<open>One intent in the durable queue, enqueued with \<open>retries = 0\<close>.\<close>

definition one_intent_world :: world where
  "one_intent_world = fresh_world\<lparr> sync_queue := Some (Wellformed (Queue [create_milk])) \<rparr>"

text \<open>The worlds in which that intent is all there is to do: online, idle, nothing to upload.\<close>

definition stuck :: "world \<Rightarrow> bool" where
  "stuck w = (sync_queue w = Some (Wellformed (Queue [create_milk])) \<and>
     isInternetReachable w = Some True \<and> \<not> isSyncing w \<and>
     db w = Some \<lparr> db_users = [], db_todos = [] \<rparr>)"

text \<open>The same world while a pass is in flight.\<close>

definition busy_world :: world where
  "busy_world = one_intent_world\<lparr> isSyncing := True \<rparr>"

text \<open>A create followed by an update of the same entity.\<close>

definition create_update_world :: world where
  "create_update_world =
     fresh_world\<lparr> sync_queue := Some (Wellformed (Queue [create_milk, update_milk])) \<rparr>"

text \<open>One intent, its entity unsynced in the database and optimistic in the todo store.\<close>

definition optimistic_world :: world where
  "optimistic_world = one_intent_world\<lparr>
     db := Some \<lparr> db_users = [], db_todos = [milk_row] \<rparr>,
     todoStore := one_todo_store \<rparr>"

text \<open>The key \<open>sync_queue\<close> holds JSON text that is not an array.\<close>

definition corrupt_world :: world where
  "corrupt_world = fresh_world\<lparr> sync_queue := Some (Wellformed Non_array) \<rparr>"

text \<open>One intent in the queue, and the key \<open>app_config\<close> holds the text \<open>null\<close>.\<close>

definition null_config_world :: world where
  "null_config_world = one_intent_world\<lparr> app_config := Some (Wellformed Not_object) \<rparr>"

text \<open>The key \<open>sync_queue\<close> holds text that is not JSON.\<close>

definition garbled_world :: world where
  "garbled_world = fresh_world\<lparr> sync_queue := Some Malformed \<rparr>"

definition enqueue_milk :: "enqueue list" where
  "enqueue_milk =
     [\<lparr> enq_id = ''a1'', enq_now = 1000, enq_type = CREATE, enq_table = ''todos'',
        enq_data = milk_payload \<rparr>,
      \<lparr> enq_id = ''a2'', enq_now = 1001, enq_type = UPDATE, enq_table = ''todos'',
        enq_data = milk_payload \<rparr>]"

text \<open>The sync store after \<open>addToQueue\<close> of one create intent.\<close>

definition store_enqueued_world :: world where
  "store_enqueued_world = fresh_world\<lparr> syncStore :=
     snd (addToQueue ''a1'' 1000 CREATE ''todos'' milk_payload (syncStore fresh_world)) \<rparr>"

section \<open>Facts about the todo store\<close>

lemma findIndex_None: "(findIndex p xs = None) = (\<forall>x\<in>set xs. \<not> p x)"
  by (induction xs) auto

lemma findIndex_Some: "findIndex p xs = Some i \<Longrightarrow> i < length xs \<and> p (xs ! i)"
  by (induction xs arbitrary: i) (auto split: if_splits)

lemma absent_findIndex:
  "Some i \<notin> set (map todo_id ts) \<Longrightarrow> findIndex (\<lambda>t. todo_id t = Some i) ts = None"
  by (auto simp: findIndex_None) (metis imageI)

lemma present_findIndex:
  assumes "findIndex (\<lambda>t. todo_id t = Some i) ts = Some k"
  shows "Some i \<in> set (map todo_id ts)"
proof -
  from findIndex_Some [OF assms] have "k < length ts" and "todo_id (ts ! k) = Some i"
    by simp_all
  then have "ts ! k \<in> set ts" and "todo_id (ts ! k) = Some i" by simp_all
  then show ?thesis by force
qed

lemma findIndex_splice1:
  "findIndex p xs = Some i \<Longrightarrow> length (filter p xs) \<le> 1 \<Longrightarrow>
   findIndex p (splice1 i xs) = None"
proof (induction xs arbitrary: i)
  case Nil
  then show ?case by simp
next
  case (Cons x xs)
  show ?case
  proof (cases "p x")
    case True
    with Cons.prems have "filter p xs = []" and "i = 0" by auto
    then show ?thesis
      by (simp add: splice1_def findIndex_None filter_empty_conv)
  next
    case False
    with Cons.prems obtain j where j: "findIndex p xs = Some j" "i = Suc j" by auto
    from False Cons.prems have "length (filter p xs) \<le> 1" by simp
    with Cons.IH j have "findIndex p (splice1 j xs) = None" by simp
    with False j show ?thesis by (simp add: splice1_def)
  qed
qed

lemma findIndex_update:
  "findIndex p xs = Some i \<Longrightarrow> length (filter p xs) \<le> 1 \<Longrightarrow>
   findIndex p (xs[i := r]) = (if p r then Some i else None)"
proof (induction xs arbitrary: i)
  case Nil
  then show ?case by simp
next
  case (Cons x xs)
  show ?case
  proof (cases "p x")
    case True
    with Cons.prems have "filter p xs = []" and "i = 0" by auto
    then show ?thesis
      by (simp add: findIndex_None filter_empty_conv)
  next
    case False
    with Cons.prems obtain j where j: "findIndex p xs = Some j" "i = Suc j" by auto
    from False Cons.prems have "length (filter p xs) \<le> 1" by simp
    with Cons.IH j have "findIndex p (xs[j := r]) = (if p r then Some j else None)" by simp
    with False j show ?thesis by simp
  qed
qed

subsection \<open>The recomputation in closed form\<close>

lemma fold_stats_total: "s_total (fold (stats_step now) ts st) = s_total st"
  by (induction ts arbitrary: st) (simp_all add: stats_step_def Let_def)

lemma fold_stats_completed:
  "s_completed (fold (stats_step now) ts st) =
     s_completed st + int (length (filter (\<lambda>t. truthy (completed t)) ts))"
  by (induction ts arbitrary: st) (simp_all add: stats_step_def Let_def)

lemma fold_stats_pending:
  "s_pending (fold (stats_step now) ts st) =
     s_pending st + int (length (filter (\<lambda>t. \<not> truthy (completed t)) ts))"
  by (induction ts arbitrary: st) (simp_all add: stats_step_def Let_def)

lemma counts_agree_iff:
  "counts_agree now s =
     (s_total (stats s) = int (length (todos s)) \<and>
      s_completed (stats s) = int (length (filter (\<lambda>t. truthy (completed t)) (todos s))) \<and>
      s_pending (stats s) = int (length (filter (\<lambda>t. \<not> truthy (completed t)) (todos s))))"
  by (simp add: counts_agree_def calculateStats_def fold_stats_total fold_stats_completed
      fold_stats_pending)

lemma filter_length_update:
  "i < length xs \<Longrightarrow>
   int (length (filter P (xs[i := y]))) =
     int (length (filter P xs)) - (if P (xs ! i) then 1 else 0) + (if P y then 1 else 0)"
proof (induction xs arbitrary: i)
  case Nil
  then show ?case by simp
next
  case (Cons x xs)
  show ?case
  proof (cases i)
    case 0
    then show ?thesis by simp
  next
    case (Suc j)
    with Cons.prems have "j < length xs" by simp
    from Cons.IH [OF this] Suc show ?thesis by (auto split: if_splits)
  qed
qed

lemma filter_length_splice1:
  "i < length xs \<Longrightarrow>
   int (length (filter P (splice1 i xs))) =
     int (length (filter P xs)) - (if P (xs ! i) then 1 else 0)"
proof (induction xs arbitrary: i)
  case Nil
  then show ?case by simp
next
  case (Cons x xs)
  show ?case
  proof (cases i)
    case 0
    then show ?thesis by (simp add: splice1_def)
  next
    case (Suc j)
    with Cons.prems have "j < length xs" by simp
    from Cons.IH [OF this] Suc show ?thesis by (auto simp: splice1_def split: if_splits)
  qed
qed

lemma length_splice1: "i < length xs \<Longrightarrow> int (length (splice1 i xs)) = int (length xs) - 1"
  by (simp add: splice1_def)

lemma spread_completed:
  "completed (spread t u) = spread_key (completed t) (upd_completed u)"
  by (simp add: spread_def)

lemma list_all_update: "list_all P xs \<Longrightarrow> P y \<Longrightarrow> list_all P (xs[i := y])"
  by (induction xs arbitrary: i) (auto split: nat.splits)

lemma list_all_splice1: "list_all P xs \<Longrightarrow> list_all P (splice1 i xs)"
  by (auto simp: list_all_iff splice1_def dest: in_set_takeD in_set_dropD)

lemma list_all_nth: "list_all P xs \<Longrightarrow> i < length xs \<Longrightarrow> P (xs ! i)"
  by (simp add: list_all_length)

subsection \<open>Each optimistic operation keeps the three counters right\<close>

lemma add_agree:
  "counts_agree now s \<Longrightarrow> counts_agree now' (snd (optimisticAdd tempId n d s))"
  by (simp add: counts_agree_iff optimisticAdd_def Let_def count_added_def)

lemma add_defined:
  "completed_defined s \<Longrightarrow> completed_defined (snd (optimisticAdd tempId n d s))"
  by (simp add: completed_defined_def optimisticAdd_def Let_def optimisticTodo_def)

lemma update_agree:
  assumes "counts_agree now s" "completed_defined s" "upd_completed u \<noteq> Undefined"
  shows "counts_agree now' (optimisticUpdate i u s) \<and> completed_defined (optimisticUpdate i u s)"
proof (cases "findIndex (\<lambda>t. todo_id t = Some i) (todos s)")
  case None
  with assms show ?thesis by (simp add: optimisticUpdate_def counts_agree_iff)
next
  case (Some k)
  from findIndex_Some [OF Some] have k: "k < length (todos s)" by simp
  from assms(2) k list_all_nth [of "\<lambda>t. completed t \<noteq> None" "todos s" k]
  have old: "completed (todos s ! k) \<noteq> None"
    by (simp add: completed_defined_def)
  let ?new = "(spread (todos s ! k) u)\<lparr> isOptimistic := Some True,
                originalId := original_or_id (todos s ! k) \<rparr>"
  from old assms(3) have new: "completed ?new \<noteq> None"
    by (cases "upd_completed u") (simp_all add: spread_completed spread_key_def)
  have "counts_agree now' (optimisticUpdate i u s)"
    using assms(1,3) Some k old
    by (cases "upd_completed u")
       (auto simp: optimisticUpdate_def counts_agree_iff Let_def adjust_completed_def
          filter_length_update spread_completed spread_key_def truthy_def)
  moreover have "completed_defined (optimisticUpdate i u s)"
    using assms(2) Some new
    by (simp add: optimisticUpdate_def Let_def completed_defined_def list_all_update)
  ultimately show ?thesis by simp
qed

lemma remove_agree:
  assumes "counts_agree now s" "findIndex (\<lambda>t. todo_id t = Some i) (todos s) = Some k"
  shows "counts_agree now'
           (s\<lparr> todos := splice1 k (todos s), stats := count_removed (todos s ! k) (stats s) \<rparr>)"
proof -
  from findIndex_Some [OF assms(2)] have k: "k < length (todos s)" by simp
  show ?thesis
    using assms(1) k
    by (auto simp: counts_agree_iff count_removed_def filter_length_splice1 length_splice1)
qed

lemma delete_agree:
  "counts_agree now s \<Longrightarrow> counts_agree now' (optimisticDelete i s)"
  by (cases "findIndex (\<lambda>t. todo_id t = Some i) (todos s)")
     (simp_all add: optimisticDelete_def Let_def remove_agree, simp add: counts_agree_iff)

lemma delete_defined:
  "completed_defined s \<Longrightarrow> completed_defined (optimisticDelete i s)"
  by (cases "findIndex (\<lambda>t. todo_id t = Some i) (todos s)")
     (simp_all add: optimisticDelete_def Let_def completed_defined_def list_all_splice1)

lemma revert_agree:
  "counts_agree now s \<Longrightarrow> counts_agree now' (revertOptimistic i s)"
  by (cases "findIndex (\<lambda>t. todo_id t = Some i) (todos s)")
     (simp_all add: revertOptimistic_def Let_def remove_agree, simp add: counts_agree_iff)

lemma revert_defined:
  "completed_defined s \<Longrightarrow> completed_defined (revertOptimistic i s)"
  by (cases "findIndex (\<lambda>t. todo_id t = Some i) (todos s)")
     (simp_all add: revertOptimistic_def Let_def completed_defined_def list_all_splice1)

lemma confirm_agree:
  assumes "counts_agree now s" "completed_defined s" "keeps_completed (OpConfirm i r) s"
  shows "counts_agree now' (confirmOptimistic i r s) \<and> completed_defined (confirmOptimistic i r s)"
proof (cases "findIndex (\<lambda>t. todo_id t = Some i) (todos s)")
  case None
  with assms show ?thesis by (simp add: confirmOptimistic_def counts_agree_iff)
next
  case (Some k)
  from findIndex_Some [OF Some] have k: "k < length (todos s)" by simp
  from assms(2) k list_all_nth [of "\<lambda>t. completed t \<noteq> None" "todos s" k]
  have old: "completed (todos s ! k) \<noteq> None"
    by (simp add: completed_defined_def)
  from assms(3) Some have same: "completed r = completed (todos s ! k)" by simp
  have "counts_agree now' (confirmOptimistic i r s)"
    using assms(1) Some k same
    by (auto simp: confirmOptimistic_def counts_agree_iff filter_length_update)
  moreover have "completed_defined (confirmOptimistic i r s)"
    using assms(2) Some old same
    by (simp add: confirmOptimistic_def completed_defined_def list_all_update)
  ultimately show ?thesis by simp
qed

lemma apply_op_agree:
  assumes "counts_agree now s" "completed_defined s" "keeps_completed x s"
  shows "counts_agree now' (apply_op x s) \<and> completed_defined (apply_op x s)"
proof (cases x)
  case (OpAdd t n d)
  with assms show ?thesis by (simp add: add_agree add_defined)
next
  case (OpUpdate i u)
  with assms update_agree [of now s u now' i] show ?thesis by simp
next
  case (OpDelete i)
  with assms show ?thesis by (simp add: delete_agree delete_defined)
next
  case (OpConfirm i r)
  with assms confirm_agree [of now s i r now'] show ?thesis by simp
next
  case (OpRevert i)
  with assms show ?thesis by (simp add: revert_agree revert_defined)
qed

lemma apply_op_total:
  assumes "s_total (stats s) = int (length (todos s))"
  shows "s_total (stats (apply_op x s)) = int (length (todos (apply_op x s)))"
proof (cases x)
  case (OpAdd t n d)
  with assms show ?thesis by (simp add: optimisticAdd_def Let_def count_added_def)
next
  case (OpUpdate i u)
  with assms show ?thesis
    by (cases "upd_completed u")
       (auto simp: optimisticUpdate_def Let_def adjust_completed_def split: option.splits)
next
  case (OpDelete i)
  with assms show ?thesis
    by (auto simp: optimisticDelete_def Let_def count_removed_def length_splice1
        split: option.splits dest: findIndex_Some)
next
  case (OpConfirm i r)
  with assms show ?thesis by (auto simp: confirmOptimistic_def split: option.splits)
next
  case (OpRevert i)
  with assms show ?thesis
    by (auto simp: revertOptimistic_def Let_def count_removed_def length_splice1
        split: option.splits dest: findIndex_Some)
qed

lemma apply_op_overdue: "s_overdue (stats (apply_op x s)) = s_overdue (stats s)"
proof (cases x)
  case (OpAdd t n d)
  then show ?thesis by (simp add: optimisticAdd_def Let_def count_added_def)
next
  case (OpUpdate i u)
  then show ?thesis
    by (cases "upd_completed u")
       (auto simp: optimisticUpdate_def Let_def adjust_completed_def split: option.splits)
next
  case (OpDelete i)
  then show ?thesis
    by (auto simp: optimisticDelete_def Let_def count_removed_def split: option.splits)
next
  case (OpConfirm i r)
  then show ?thesis by (auto simp: confirmOptimistic_def split: option.splits)
next
  case (OpRevert i)
  then show ?thesis
    by (auto simp: revertOptimistic_def Let_def count_removed_def split: option.splits)
qed

lemma run_ops_overdue: "s_overdue (stats (run_ops xs s)) = s_overdue (stats s)"
  by (induction xs arbitrary: s) (simp_all add: apply_op_overdue)

lemma run_ops_total:
  "s_total (stats s) = int (length (todos s)) \<Longrightarrow>
   s_total (stats (run_ops xs s)) = int (length (todos (run_ops xs s)))"
  by (induction xs arbitrary: s) (simp_all add: apply_op_total)

lemma run_ops_agree:
  "counts_agree now s \<Longrightarrow> completed_defined s \<Longrightarrow> ops_keep_completed xs s \<Longrightarrow>
   counts_agree now' (run_ops xs s)"
proof (induction xs arbitrary: s)
  case Nil
  then show ?case by (simp add: counts_agree_iff)
next
  case (Cons x xs)
  from Cons.prems apply_op_agree [of now s x now]
  have "counts_agree now (apply_op x s)" and "completed_defined (apply_op x s)" by simp_all
  with Cons show ?case by simp
qed

text \<open>
  Claim C3, as stated: after every sequence of optimistic add, update, delete, confirm
  and revert operations the maintained statistics equal the recomputed ones. It fails
  in three ways. After adding one open todo that is past its due date the maintained
  \<open>overdue\<close> is 0 and the recomputed one is 1. After confirming that todo with a
  completed one the maintained \<open>completed\<close> is 0 and the recomputed one is 1. After
  completing the added todo and then updating it with \<open>{ completed: undefined }\<close> the
  maintained \<open>completed\<close> is 1 and the recomputed one is 0.
\<close>

theorem stats_diverge_counterexample:
  "s_overdue (stats (run_ops [OpAdd ''temp_1'' 1000 milk_data] initial_todo_state))
     \<noteq> s_overdue (calculateStats 1000
          (todos (run_ops [OpAdd ''temp_1'' 1000 milk_data] initial_todo_state)))
   \<and> s_completed (stats (run_ops [OpAdd ''temp_1'' 1000 milk_data,
          OpConfirm ''temp_1'' milk_done] initial_todo_state))
     \<noteq> s_completed (calculateStats 1000
          (todos (run_ops [OpAdd ''temp_1'' 1000 milk_data,
             OpConfirm ''temp_1'' milk_done] initial_todo_state)))
   \<and> s_completed (stats (run_ops [OpAdd ''temp_1'' 1000 milk_data,
          OpUpdate ''temp_1'' (set_completed True),
          OpUpdate ''temp_1'' unset_completed] initial_todo_state))
     \<noteq> s_completed (calculateStats 1000
          (todos (run_ops [OpAdd ''temp_1'' 1000 milk_data,
             OpUpdate ''temp_1'' (set_completed True),
             OpUpdate ''temp_1'' unset_completed] initial_todo_state)))"
  by code_simp

text \<open>
  Claim C3, amended: from a store in which every visible todo carries a boolean
  \<open>completed\<close> and whose \<open>total\<close>, \<open>completed\<close> and \<open>pending\<close> equal the recomputed
  values, every sequence of optimistic add, update, delete, confirm and revert
  operations leaves \<open>total\<close> equal to the recomputed total; \<open>completed\<close> and \<open>pending\<close>
  stay equal to the recomputed values as well when no update of the sequence carries
  the key \<open>completed\<close> with the value \<open>undefined\<close> and every confirmation replaces an
  entry by a todo with the same \<open>completed\<close> value. \<open>overdue\<close> is not maintained by
  these operations: it keeps the value it had.
\<close>

theorem optimistic_ops_keep_counts:
  assumes "counts_agree now s" "completed_defined s"
  shows "s_total (stats (run_ops xs s)) = s_total (calculateStats now' (todos (run_ops xs s)))
       \<and> (ops_keep_completed xs s \<longrightarrow> counts_agree now' (run_ops xs s))
       \<and> s_overdue (stats (run_ops xs s)) = s_overdue (stats s)"
  using assms run_ops_total [of s xs] run_ops_agree [of now s xs now']
  by (simp add: counts_agree_iff calculateStats_def fold_stats_total run_ops_overdue)

theorem optimistic_ops_keep_counts_witness:
  "counts_agree 1000 initial_todo_state
   \<and> completed_defined initial_todo_state
   \<and> ops_keep_completed
        [OpAdd ''temp_1'' 1000 milk_data, OpUpdate ''temp_1'' (set_completed True),
         OpConfirm ''temp_1'' milk_done, OpDelete ''srv_1'', OpRevert ''temp_1'']
        initial_todo_state
   \<and> counts_agree 2000
        (run_ops
           [OpAdd ''temp_1'' 1000 milk_data, OpUpdate ''temp_1'' (set_completed True),
            OpConfirm ''temp_1'' milk_done, OpDelete ''srv_1'', OpRevert ''temp_1'']
           initial_todo_state)
   \<and> s_overdue (stats (run_ops
           [OpAdd ''temp_1'' 1000 milk_data, OpUpdate ''temp_1'' (set_completed True),
            OpConfirm ''temp_1'' milk_done, OpDelete ''srv_1'', OpRevert ''temp_1'']
           initial_todo_state)) = s_overdue (stats initial_todo_state)"
proof -
  have h1: "counts_agree 1000 initial_todo_state"
    by code_simp
  have h2: "completed_defined initial_todo_state"
    by code_simp
  have h3: "ops_keep_completed
        [OpAdd ''temp_1'' 1000 milk_data, OpUpdate ''temp_1'' (set_completed True),
         OpConfirm ''temp_1'' milk_done, OpDelete ''srv_1'', OpRevert ''temp_1'']
        initial_todo_state"
    by code_simp
  from optimistic_ops_keep_counts [OF h1 h2] h1 h2 h3 show ?thesis by blast
qed

text \<open>
  Claim C6, as stated: for every temp id, calling \<open>revertOptimistic\<close> or
  \<open>confirmOptimistic\<close> twice has the effect of calling it once. It fails when two
  visible todos carry the id, as after two additions and an update that renames the
  second: each call acts on the first entry it finds, so the second call reverts or
  replaces the other entry.
\<close>

theorem second_call_hits_duplicate_counterexample:
  "map todo_id (todos two_under_one_id) = [Some ''temp_1'', Some ''temp_1'']
   \<and> revertOptimistic ''temp_1'' (revertOptimistic ''temp_1'' two_under_one_id)
       \<noteq> revertOptimistic ''temp_1'' two_under_one_id
   \<and> confirmOptimistic ''temp_1'' milk_done (confirmOptimistic ''temp_1'' milk_done two_under_one_id)
       \<noteq> confirmOptimistic ''temp_1'' milk_done two_under_one_id"
  by code_simp

text \<open>
  Claim C6, amended: for a temp id that names at most one visible todo, calling
  \<open>revertOptimistic\<close> twice has the effect of calling it once, and so has calling
  \<open>confirmOptimistic\<close> twice with the same todo; for a temp id that is not in the
  visible list both are no-ops that return the store unchanged.
\<close>

theorem confirm_revert_idempotent:
  assumes "length (filter (\<lambda>t. todo_id t = Some tempId) (todos s)) \<le> 1"
  shows "revertOptimistic tempId (revertOptimistic tempId s) = revertOptimistic tempId s
       \<and> confirmOptimistic tempId r (confirmOptimistic tempId r s) = confirmOptimistic tempId r s
       \<and> (Some tempId \<notin> set (map todo_id (todos s)) \<longrightarrow>
            revertOptimistic tempId s = s \<and> confirmOptimistic tempId r s = s)"
proof (cases "findIndex (\<lambda>t. todo_id t = Some tempId) (todos s)")
  case None
  then show ?thesis
    by (simp add: revertOptimistic_def confirmOptimistic_def)
next
  case (Some i)
  have "Some tempId \<in> set (map todo_id (todos s))"
    by (rule present_findIndex [OF Some])
  moreover have "revertOptimistic tempId (revertOptimistic tempId s) = revertOptimistic tempId s"
    using Some findIndex_splice1 [OF Some assms]
    by (simp add: revertOptimistic_def Let_def)
  moreover have "confirmOptimistic tempId r (confirmOptimistic tempId r s) = confirmOptimistic tempId r s"
    using Some findIndex_update [OF Some assms, of r]
    by (simp add: confirmOptimistic_def)
  ultimately show ?thesis by simp
qed

theorem confirm_revert_idempotent_witness:
  "length (filter (\<lambda>t. todo_id t = Some ''temp_1'') (todos one_todo_store)) \<le> 1
   \<and> revertOptimistic ''temp_1'' (revertOptimistic ''temp_1'' one_todo_store)
       = revertOptimistic ''temp_1'' one_todo_store
   \<and> confirmOptimistic ''temp_1'' milk_done (confirmOptimistic ''temp_1'' milk_done one_todo_store)
       = confirmOptimistic ''temp_1'' milk_done one_todo_store
   \<and> length (filter (\<lambda>t. todo_id t = Some ''temp_9'') (todos one_todo_store)) \<le> 1
   \<and> Some ''temp_9'' \<notin> set (map todo_id (todos one_todo_store))
   \<and> revertOptimistic ''temp_9'' one_todo_store = one_todo_store
   \<and> confirmOptimistic ''temp_9'' milk_done one_todo_store = one_todo_store"
proof -
  have h1: "length (filter (\<lambda>t. todo_id t = Some ''temp_1'') (todos one_todo_store)) \<le> 1"
    by code_simp
  have h2: "length (filter (\<lambda>t. todo_id t = Some ''temp_9'') (todos one_todo_store)) \<le> 1"
    by code_simp
  have h3: "Some ''temp_9'' \<notin> set (map todo_id (todos one_todo_store))"
    by code_simp
  from confirm_revert_idempotent [OF h1, of milk_done]
       confirm_revert_idempotent [OF h2, of milk_done] h1 h2 h3
  show ?thesis by blast
qed

text \<open>
  Claim C10: for an id that is not in the visible list, \<open>updateTodo\<close>, \<open>deleteTodo\<close>,
  \<open>optimisticUpdate\<close> and \<open>optimisticDelete\<close> return the whole store state unchanged.
  Each of them is a total function of the state, so none raises.
\<close>

theorem absent_id_is_noop:
  assumes "Some i \<notin> set (map todo_id (todos s))"
  shows "updateTodo i u s = s \<and> deleteTodo i s = s
       \<and> optimisticUpdate i u s = s \<and> optimisticDelete i s = s"
  using absent_findIndex [OF assms]
  by (simp add: updateTodo_def deleteTodo_def optimisticUpdate_def optimisticDelete_def)

theorem absent_id_is_noop_witness:
  "Some ''temp_9'' \<notin> set (map todo_id (todos one_todo_store))
   \<and> updateTodo ''temp_9'' (set_completed True) one_todo_store = one_todo_store
   \<and> deleteTodo ''temp_9'' one_todo_store = one_todo_store
   \<and> optimisticUpdate ''temp_9'' (set_completed True) one_todo_store = one_todo_store
   \<and> optimisticDelete ''temp_9'' one_todo_store = one_todo_store"
proof -
  have h: "Some ''temp_9'' \<notin> set (map todo_id (todos one_todo_store))"
    by code_simp
  from absent_id_is_noop [OF h, of "set_completed True"] h show ?thesis by blast
qed

section \<open>Facts about the sync service\<close>

lemma processAction_eq: "processAction remote a w = fetch_ok remote (dispatch_request a) w"
  by (cases "action_type a")
     (simp_all add: processAction_def dispatch_request_def createOnServer_def
        updateOnServer_def deleteOnServer_def)

lemma process_one_queue:
  assumes "getSyncQueue w = Queue s"
  shows "getSyncQueue (process_one remote a w) =
           Queue (if remote (length (requests w)) (dispatch_request a) \<or> retries_or_0 a + 1 \<ge> 3
                  then filter (\<lambda>b. action_id b \<noteq> action_id a) s else s)"
  using assms
  by (auto simp: process_one_def processAction_eq fetch_ok_def removeFromSyncQueue_def
      getSyncQueue_def setSyncQueue_def retries_or_0_def Let_def)

lemma process_one_requests:
  "requests (process_one remote a w) = requests w @ [dispatch_request a]"
  by (auto simp: process_one_def processAction_eq fetch_ok_def removeFromSyncQueue_def
      setSyncQueue_def getSyncQueue_def Let_def split: parsed.splits option.splits stored.splits)

lemma process_one_frame:
  "isSyncing (process_one remote a w) = isSyncing w \<and>
   app_config (process_one remote a w) = app_config w \<and>
   isInternetReachable (process_one remote a w) = isInternetReachable w \<and>
   db (process_one remote a w) = db w \<and>
   todoStore (process_one remote a w) = todoStore w \<and>
   syncStore (process_one remote a w) = syncStore w"
  by (auto simp: process_one_def processAction_eq fetch_ok_def removeFromSyncQueue_def
      setSyncQueue_def getSyncQueue_def Let_def split: parsed.splits option.splits stored.splits)

lemma process_loop_requests:
  "requests (process_loop remote q w) = requests w @ map dispatch_request q"
  by (induction q arbitrary: w) (simp_all add: process_one_requests)

lemma process_loop_frame:
  "isSyncing (process_loop remote q w) = isSyncing w \<and>
   app_config (process_loop remote q w) = app_config w \<and>
   isInternetReachable (process_loop remote q w) = isInternetReachable w \<and>
   db (process_loop remote q w) = db w \<and>
   todoStore (process_loop remote q w) = todoStore w \<and>
   syncStore (process_loop remote q w) = syncStore w"
  by (induction q arbitrary: w) (simp_all add: process_one_frame)

lemma process_loop_subset:
  "getSyncQueue w = Queue s \<Longrightarrow>
   \<exists>s'. getSyncQueue (process_loop remote q w) = Queue s' \<and> set s' \<subseteq> set s"
proof (induction q arbitrary: w s)
  case Nil
  then show ?case by simp
next
  case (Cons a q)
  let ?s1 = "if remote (length (requests w)) (dispatch_request a) \<or> retries_or_0 a + 1 \<ge> 3
             then filter (\<lambda>b. action_id b \<noteq> action_id a) s else s"
  have s1: "getSyncQueue (process_one remote a w) = Queue ?s1"
    by (rule process_one_queue [OF Cons.prems])
  from Cons.IH [OF s1] obtain s' where
    "getSyncQueue (process_loop remote q (process_one remote a w)) = Queue s'" "set s' \<subseteq> set ?s1"
    by blast
  moreover have "set ?s1 \<subseteq> set s" by auto
  ultimately show ?case by auto
qed

lemma process_loop_removes:
  "getSyncQueue w = Queue s \<Longrightarrow> k < length q \<Longrightarrow>
   remote (length (requests w) + k) (dispatch_request (q ! k)) \<Longrightarrow>
   \<exists>s'. getSyncQueue (process_loop remote q w) = Queue s' \<and>
        action_id (q ! k) \<notin> action_id ` set s'"
proof (induction q arbitrary: w s k)
  case Nil
  then show ?case by simp
next
  case (Cons a q)
  let ?w1 = "process_one remote a w"
  let ?s1 = "if remote (length (requests w)) (dispatch_request a) \<or> retries_or_0 a + 1 \<ge> 3
             then filter (\<lambda>b. action_id b \<noteq> action_id a) s else s"
  have s1: "getSyncQueue ?w1 = Queue ?s1"
    by (rule process_one_queue [OF Cons.prems(1)])
  show ?case
  proof (cases k)
    case 0
    with Cons.prems have "?s1 = filter (\<lambda>b. action_id b \<noteq> action_id a) s" by simp
    with s1 have "getSyncQueue ?w1 = Queue (filter (\<lambda>b. action_id b \<noteq> action_id a) s)" by simp
    from process_loop_subset [OF this, of remote q] obtain s' where
      "getSyncQueue (process_loop remote q ?w1) = Queue s'"
      "set s' \<subseteq> set (filter (\<lambda>b. action_id b \<noteq> action_id a) s)" by blast
    with 0 show ?thesis by auto
  next
    case (Suc j)
    with Cons.prems have j: "j < length q" by simp
    have "length (requests ?w1) + j = length (requests w) + k"
      using Suc by (simp add: process_one_requests)
    with Cons.prems(3) Suc have "remote (length (requests ?w1) + j) (dispatch_request (q ! j))"
      by simp
    from Cons.IH [OF s1 j this] Suc show ?thesis by simp
  qed
qed

subsection \<open>The flag during a pass\<close>

lemma flag_kept_refl: "flag_kept w w"
  by (simp add: flag_kept_def)

lemma flag_kept_trans:
  assumes "flag_kept w w1" "flag_kept w1 w2"
  shows "flag_kept w w2"
proof -
  let ?a = "length (requests w)" and ?b = "length (requests w1)" and ?c = "length (requests w2)"
  from assms have "?a \<le> ?b" and "?b \<le> ?c" by (simp_all add: flag_kept_def)
  then have "?c - ?a = (?b - ?a) + (?c - ?b)" by simp
  then have "replicate (?c - ?a) (isSyncing w) =
               replicate (?b - ?a) (isSyncing w) @ replicate (?c - ?b) (isSyncing w)"
    by (simp add: replicate_add)
  with assms show ?thesis by (simp add: flag_kept_def)
qed

lemma fetch_ok_kept: "flag_kept w (snd (fetch_ok remote r w))"
  by (simp add: flag_kept_def fetch_ok_def)

lemma setSyncQueue_kept: "flag_kept w (setSyncQueue q w)"
  by (simp add: flag_kept_def setSyncQueue_def)

lemma removeFromSyncQueue_kept: "removeFromSyncQueue i w = Inr w' \<Longrightarrow> flag_kept w w'"
  by (auto simp: removeFromSyncQueue_def setSyncQueue_kept split: parsed.splits)

lemma process_one_kept: "flag_kept w (process_one remote a w)"
proof -
  let ?w1 = "snd (fetch_ok remote (dispatch_request a) w)"
  have k1: "flag_kept w ?w1" by (rule fetch_ok_kept)
  have "process_one remote a w = ?w1 \<or>
        removeFromSyncQueue (action_id a) ?w1 = Inr (process_one remote a w)"
    by (auto simp: process_one_def processAction_eq Let_def case_prod_beta split: sum.splits)
  then show ?thesis
  proof
    assume "process_one remote a w = ?w1"
    with k1 show ?thesis by simp
  next
    assume "removeFromSyncQueue (action_id a) ?w1 = Inr (process_one remote a w)"
    from flag_kept_trans [OF k1 removeFromSyncQueue_kept [OF this]] show ?thesis .
  qed
qed

lemma process_loop_kept: "flag_kept w (process_loop remote q w)"
proof (induction q arbitrary: w)
  case Nil
  show ?case by (simp add: flag_kept_refl)
next
  case (Cons a q)
  from flag_kept_trans [OF process_one_kept Cons.IH] show ?case by simp
qed

lemma fold_process_character: "fold process_character t w = w"
  by (induction t) (simp_all add: process_character_def)

lemma processSyncQueue_kept: "processSyncQueue remote w = Inr w1 \<Longrightarrow> flag_kept w w1"
  by (auto simp: processSyncQueue_def fold_process_character flag_kept_refl process_loop_kept
      split: parsed.splits)

lemma markAsSynced_kept: "markAsSynced t i w = Inr w' \<Longrightarrow> flag_kept w w'"
  by (auto simp: markAsSynced_def flag_kept_def split: option.splits)

lemma upload_users_kept: "flag_kept w (snd (upload_users remote rs w))"
proof (induction rs arbitrary: w)
  case Nil
  show ?case by (simp add: flag_kept_refl)
next
  case (Cons r rs)
  let ?w1 = "snd (uploadUser remote r w)"
  have k1: "flag_kept w ?w1" by (simp add: uploadUser_def fetch_ok_kept)
  show ?case
  proof (cases "fst (uploadUser remote r w)")
    case False
    then have "snd (upload_users remote (r # rs) w) = snd (upload_users remote rs ?w1)"
      by (simp add: case_prod_beta)
    with flag_kept_trans [OF k1 Cons.IH] show ?thesis by simp
  next
    case True
    show ?thesis
    proof (cases "markAsSynced Users (row_id r) ?w1")
      case (Inl e)
      with True k1 show ?thesis by (simp add: case_prod_beta)
    next
      case (Inr w2)
      from markAsSynced_kept [OF Inr] have k2: "flag_kept ?w1 w2" .
      from True Inr have "snd (upload_users remote (r # rs) w) = snd (upload_users remote rs w2)"
        by (simp add: case_prod_beta)
      with flag_kept_trans [OF flag_kept_trans [OF k1 k2] Cons.IH] show ?thesis by simp
    qed
  qed
qed

lemma upload_todos_kept: "flag_kept w (snd (upload_todos remote rs w))"
proof (induction rs arbitrary: w)
  case Nil
  show ?case by (simp add: flag_kept_refl)
next
  case (Cons r rs)
  let ?w1 = "snd (uploadTodo remote r w)"
  have k1: "flag_kept w ?w1" by (simp add: uploadTodo_def fetch_ok_kept)
  show ?case
  proof (cases "fst (uploadTodo remote r w)")
    case False
    then have "snd (upload_todos remote (r # rs) w) = snd (upload_todos remote rs ?w1)"
      by (simp add: case_prod_beta)
    with flag_kept_trans [OF k1 Cons.IH] show ?thesis by simp
  next
    case True
    show ?thesis
    proof (cases "markAsSynced Todos (row_id r) ?w1")
      case (Inl e)
      with True k1 show ?thesis by (simp add: case_prod_beta)
    next
      case (Inr w2)
      from markAsSynced_kept [OF Inr] have k2: "flag_kept ?w1 w2" .
      from True Inr have "snd (upload_todos remote (r # rs) w) = snd (upload_todos remote rs w2)"
        by (simp add: case_prod_beta)
      with flag_kept_trans [OF flag_kept_trans [OF k1 k2] Cons.IH] show ?thesis by simp
    qed
  qed
qed

lemma uploadUnsyncedData_kept: "flag_kept w (uploadUnsyncedData remote w)"
proof (cases "getUnsyncedUsers w")
  case (Inl e)
  then show ?thesis by (simp add: uploadUnsyncedData_def flag_kept_refl)
next
  case (Inr us)
  obtain r w1 where u: "upload_users remote us w = (r, w1)" by (cases "upload_users remote us w")
  from upload_users_kept [of w remote us] u have k1: "flag_kept w w1" by simp
  show ?thesis
  proof (cases r)
    case (Some e)
    with Inr u k1 show ?thesis by (simp add: uploadUnsyncedData_def)
  next
    case None
    show ?thesis
    proof (cases "getUnsyncedTodos w1")
      case (Inl e)
      with \<open>getUnsyncedUsers w = Inr us\<close> u None k1 show ?thesis
        by (simp add: uploadUnsyncedData_def)
    next
      case (Inr ts)
      with \<open>getUnsyncedUsers w = Inr us\<close> u None
      have "uploadUnsyncedData remote w = snd (upload_todos remote ts w1)"
        by (simp add: uploadUnsyncedData_def)
      with flag_kept_trans [OF k1 upload_todos_kept [of w1 remote ts]] show ?thesis by simp
    qed
  qed
qed

lemma setAppConfig_kept: "flag_kept w (setAppConfig c w)"
  by (simp add: flag_kept_def setAppConfig_def)

lemma sync_try_kept: "flag_kept w (snd (sync_try remote now w))"
proof (cases "processSyncQueue remote w")
  case (Inl e)
  then show ?thesis by (simp add: sync_try_def flag_kept_refl)
next
  case (Inr w1)
  let ?w2 = "uploadUnsyncedData remote w1"
  from flag_kept_trans [OF processSyncQueue_kept [OF Inr] uploadUnsyncedData_kept]
  have k2: "flag_kept w ?w2" .
  have "snd (sync_try remote now w) = ?w2 \<or>
        (\<exists>c. snd (sync_try remote now w) = setAppConfig c ?w2)"
    using Inr by (auto simp: sync_try_def Let_def split: parsed_config.splits)
  then show ?thesis
  proof
    assume "snd (sync_try remote now w) = ?w2"
    with k2 show ?thesis by simp
  next
    assume "\<exists>c. snd (sync_try remote now w) = setAppConfig c ?w2"
    then obtain c where "snd (sync_try remote now w) = setAppConfig c ?w2" ..
    with flag_kept_trans [OF k2 setAppConfig_kept [of ?w2 c]] show ?thesis by simp
  qed
qed

subsection \<open>Enqueueing\<close>

lemma enqueue_all_queue:
  "getSyncQueue w = Queue q \<Longrightarrow>
   \<exists>w'. enqueue_all es w = Inr w' \<and> getSyncQueue w' = Queue (q @ map enqueued_action es)"
proof (induction es arbitrary: w q)
  case Nil
  then show ?case by simp
next
  case (Cons e es)
  let ?w1 = "setSyncQueue (q @ [enqueued_action e]) w"
  have step: "service_addToSyncQueue (enq_id e) (enq_now e) (enq_type e) (enq_table e) (enq_data e) w
                = Inr ?w1"
    using Cons.prems by (simp add: service_addToSyncQueue_def addToSyncQueue_def enqueued_action_def)
  have "getSyncQueue ?w1 = Queue (q @ [enqueued_action e])"
    by (simp add: getSyncQueue_def setSyncQueue_def)
  from Cons.IH [OF this] step show ?case by simp
qed

lemma getSyncQueue_restart: "getSyncQueue (restart w) = getSyncQueue w"
  by (simp add: getSyncQueue_def restart_def)

lemma enqueued_all_pending:
  "filter (\<lambda>a. retries_or_0 a < 3) (map enqueued_action es) = map enqueued_action es"
  by (induction es) (simp_all add: enqueued_action_def retries_or_0_def)

subsection \<open>A pass in which every dispatch fails\<close>

lemma failing_pass:
  assumes "stuck w"
  shows "stuck (snd (syncPendingChanges no_options never_ok now w)) \<and>
         requests (snd (syncPendingChanges no_options never_ok now w)) =
           requests w @ [dispatch_request create_milk]"
  using assms
  by (cases "getAppConfig
              (w\<lparr> isSyncing := True, requests := requests w @ [dispatch_request create_milk],
                   syncing_seen := syncing_seen w @ [True] \<rparr>)")
     (simp_all add: stuck_def syncPendingChanges_def sync_attempt_def hasInternetAccess_def
        sync_try_def processSyncQueue_def getSyncQueue_def process_one_def processAction_eq
        fetch_ok_def never_ok_def retries_or_0_def create_milk_def uploadUnsyncedData_def
        getUnsyncedUsers_def getUnsyncedTodos_def setAppConfig_def Let_def no_options_def)

lemma failing_passes:
  "stuck w \<Longrightarrow>
   stuck (sync_passes n never_ok now w) \<and>
   requests (sync_passes n never_ok now w) =
     requests w @ replicate n (dispatch_request create_milk)"
proof (induction n arbitrary: w)
  case 0
  then show ?case by simp
next
  case (Suc n)
  let ?w1 = "snd (syncPendingChanges no_options never_ok now w)"
  from failing_pass [OF Suc.prems, of now]
  have s1: "stuck ?w1" and r1: "requests ?w1 = requests w @ [dispatch_request create_milk]"
    by simp_all
  from Suc.IH [OF s1] r1 show ?case by (simp add: replicate_app_Cons_same)
qed

text \<open>
  Claim C1 says that each failed dispatch durably increments \<open>retries\<close> and that the
  intent leaves the queue once \<open>retries\<close> reaches 3. The code increments \<open>retries\<close> on
  the array parsed at the start of the pass and never stores that array: with one
  intent enqueued with \<open>retries = 0\<close> and a remote authority that never accepts, after
  any number \<open>n\<close> of passes the stored queue is still that intent with \<open>retries = 0\<close>,
  and it has been dispatched \<open>n\<close> times.
\<close>

theorem failed_intent_retried_forever:
  "getSyncQueue (sync_passes n never_ok now one_intent_world) = Queue [create_milk]
   \<and> retries create_milk = Some 0
   \<and> requests (sync_passes n never_ok now one_intent_world)
       = replicate n (dispatch_request create_milk)"
proof -
  have "stuck one_intent_world"
    by (simp add: stuck_def one_intent_world_def fresh_world_def)
  from failing_passes [OF this, of n now] show ?thesis
    by (simp add: stuck_def getSyncQueue_def one_intent_world_def fresh_world_def
        create_milk_def)
qed

text \<open>
  Claim C2, as stated: a call that starts while a pass is in flight, a force-sync call
  included, returns false, sends no request and leaves the queue unchanged. It fails
  for \<open>forcSync\<close>: the guard is \<open>isSyncing && !options.forceSync\<close>, so the forced call
  runs a pass of its own, dispatches the intent, removes it, and clears the flag that
  the pass in flight had set.
\<close>

theorem force_sync_while_busy_counterexample:
  "isSyncing busy_world
   \<and> fst (forcSync always_ok 2000 busy_world)
   \<and> requests busy_world = []
   \<and> requests (snd (forcSync always_ok 2000 busy_world)) = [dispatch_request create_milk]
   \<and> getSyncQueue busy_world = Queue [create_milk]
   \<and> getSyncQueue (snd (forcSync always_ok 2000 busy_world)) = Queue []
   \<and> \<not> isSyncing (snd (forcSync always_ok 2000 busy_world))"
  by code_simp

text \<open>
  Claim C2, amended: a call of \<open>syncPendingChanges\<close> without \<open>forceSync\<close> that starts
  while a pass is in flight returns false and leaves the world as it is: no request is
  sent and the queue is unchanged.
\<close>

theorem busy_call_returns_false:
  assumes "isSyncing w" "forceSync options \<noteq> Some True"
  shows "syncPendingChanges options remote now w = (False, w)"
  using assms by (simp add: syncPendingChanges_def sync_attempt_def)

theorem busy_call_returns_false_witness:
  "isSyncing busy_world \<and> forceSync no_options \<noteq> Some True
   \<and> syncPendingChanges no_options always_ok 2000 busy_world = (False, busy_world)"
proof -
  have h1: "isSyncing busy_world" by code_simp
  have h2: "forceSync no_options \<noteq> Some True" by code_simp
  from busy_call_returns_false [OF h1 h2] h1 h2 show ?thesis by blast
qed

text \<open>
  Claim C4, as stated: when the dispatch of an intent succeeds, the pass removes the
  intent, marks the entity synced in the database and confirms the optimistic entry.
  It fails: the dispatch of the one intent succeeds and the intent is removed, but the
  row is still unsynced after the pass (the upload step's own request was refused) and
  the todo store still shows the optimistic entry under its temp id.
\<close>

theorem dispatch_success_counterexample:
  "first_only (length (requests optimistic_world)) (dispatch_request create_milk)
   \<and> fst (syncPendingChanges no_options first_only 2000 optimistic_world)
   \<and> getSyncQueue (snd (syncPendingChanges no_options first_only 2000 optimistic_world)) = Queue []
   \<and> db (snd (syncPendingChanges no_options first_only 2000 optimistic_world))
       = Some \<lparr> db_users = [], db_todos = [milk_row] \<rparr>
   \<and> \<not> row_synced milk_row
   \<and> todoStore (snd (syncPendingChanges no_options first_only 2000 optimistic_world))
       = one_todo_store
   \<and> map todo_id (todos one_todo_store) = [Some ''temp_1'']
   \<and> map isOptimistic (todos one_todo_store) = [Some True]"
  by code_simp

text \<open>
  Claim C4, amended: when the dispatch of an intent succeeds, \<open>processSyncQueue\<close>
  removes every entry with that intent's id from the stored queue; it changes neither
  the database nor the todo store. (An entity is marked synced only by the upload step
  of the pass, when the upload request for that unsynced row is accepted.)
\<close>

theorem dispatch_success_removes_intent:
  assumes "getSyncQueue w = Queue q" "k < length q"
    "remote (length (requests w) + k) (dispatch_request (q ! k))"
  shows "\<exists>w' q'. processSyncQueue remote w = Inr w' \<and> getSyncQueue w' = Queue q' \<and>
           action_id (q ! k) \<notin> action_id ` set q' \<and>
           db w' = db w \<and> todoStore w' = todoStore w"
  using process_loop_removes [of w q k q remote, OF assms] assms(1)
  by (auto simp: processSyncQueue_def process_loop_frame)

theorem dispatch_success_removes_intent_witness:
  "getSyncQueue optimistic_world = Queue [create_milk] \<and> (0::nat) < length [create_milk]
   \<and> first_only (length (requests optimistic_world) + 0) (dispatch_request ([create_milk] ! 0))
   \<and> (\<exists>w' q'. processSyncQueue first_only optimistic_world = Inr w' \<and>
         getSyncQueue w' = Queue q' \<and>
         action_id ([create_milk] ! 0) \<notin> action_id ` set q' \<and>
         db w' = db optimistic_world \<and> todoStore w' = todoStore optimistic_world)"
proof -
  have h1: "getSyncQueue optimistic_world = Queue [create_milk]" by code_simp
  have h2: "(0::nat) < length [create_milk]" by simp
  have h3: "first_only (length (requests optimistic_world) + 0)
              (dispatch_request ([create_milk] ! 0))"
    by code_simp
  from dispatch_success_removes_intent
         [where w = optimistic_world and q = "[create_milk]" and k = 0 and remote = first_only,
          OF h1 h2 h3] h1 h2 h3
  show ?thesis by blast
qed

text \<open>
  Claim C5, as stated: every enqueue operation writes the intent to durable storage, so
  that it is still there after a restart. It fails for the sync store's \<open>addToQueue\<close>:
  the intent is pending in the store, the MMKV key is not written, and after a restart
  the store's queue is empty.
\<close>

theorem store_queue_lost_counterexample:
  "map action_id (getPendingActions (syncStore store_enqueued_world)) = [''a1'']
   \<and> sync_queue store_enqueued_world = None
   \<and> getPendingActions (syncStore (restart store_enqueued_world)) = []
   \<and> getSyncQueue (restart store_enqueued_world) = Queue []"
  by code_simp

text \<open>
  Claim C5, amended: intents enqueued through the sync service
  (\<open>SyncService.addToSyncQueue\<close>), onto a stored queue value that is absent, not
  parseable or an array, are written to the MMKV key \<open>sync_queue\<close>: after a restart
  the stored queue is the earlier queue followed by the enqueued intents in enqueue
  order, each with \<open>retries = 0 < 3\<close>. Intents added with the sync store's
  \<open>addToQueue\<close> live in memory only.
\<close>

theorem service_enqueue_survives_restart:
  assumes "getSyncQueue w = Queue q"
  shows "\<exists>w'. enqueue_all es w = Inr w' \<and>
           getSyncQueue (restart w') = Queue (q @ map enqueued_action es) \<and>
           filter (\<lambda>a. retries_or_0 a < 3) (map enqueued_action es) = map enqueued_action es"
  using enqueue_all_queue [OF assms, of es]
  by (auto simp: getSyncQueue_restart enqueued_all_pending)

theorem service_enqueue_survives_restart_witness:
  "getSyncQueue one_intent_world = Queue [create_milk]
   \<and> (\<exists>w'. enqueue_all enqueue_milk one_intent_world = Inr w' \<and>
         getSyncQueue (restart w') = Queue ([create_milk] @ map enqueued_action enqueue_milk) \<and>
         filter (\<lambda>a. retries_or_0 a < 3) (map enqueued_action enqueue_milk)
           = map enqueued_action enqueue_milk)"
proof -
  have h: "getSyncQueue one_intent_world = Queue [create_milk]" by code_simp
  from service_enqueue_survives_restart [OF h, of enqueue_milk] h show ?thesis by blast
qed

text \<open>
  Claim C7, as stated: intents are dispatched in enqueue order, and an update enqueued
  after a create of the same entity is never sent before that create has succeeded. It
  fails: the create is refused, the update is sent all the same, and the create stays
  in the queue.
\<close>

theorem update_sent_after_failed_create_counterexample:
  "getSyncQueue create_update_world = Queue [create_milk, update_milk]
   \<and> \<not> all_but_first (length (requests create_update_world)) (dispatch_request create_milk)
   \<and> requests (snd (syncPendingChanges no_options all_but_first 2000 create_update_world))
       = [dispatch_request create_milk, dispatch_request update_milk]
   \<and> getSyncQueue (snd (syncPendingChanges no_options all_but_first 2000 create_update_world))
       = Queue [create_milk]"
  by code_simp

text \<open>
  Claim C7, amended: within a pass, \<open>processSyncQueue\<close> sends exactly one request for
  each intent of the stored queue, in queue (enqueue) order, whatever the answers: an
  update enqueued after a create is sent after that create has been sent, whether or
  not the create succeeded.
\<close>

theorem dispatch_in_queue_order:
  assumes "getSyncQueue w = Queue q"
  shows "\<exists>w'. processSyncQueue remote w = Inr w' \<and>
               requests w' = requests w @ map dispatch_request q"
  using assms by (simp add: processSyncQueue_def process_loop_requests)

theorem dispatch_in_queue_order_witness:
  "getSyncQueue create_update_world = Queue [create_milk, update_milk]
   \<and> (\<exists>w'. processSyncQueue all_but_first create_update_world = Inr w' \<and>
         requests w' = requests create_update_world
                         @ map dispatch_request [create_milk, update_milk])"
proof -
  have h: "getSyncQueue create_update_world = Queue [create_milk, update_milk]" by code_simp
  from dispatch_in_queue_order [OF h, of all_but_first] h show ?thesis by blast
qed

text \<open>
  Claim C8, as stated: a pass sets the flag for its duration, clears it on every exit
  path, and a pass-level exception is caught and recorded in \<open>SyncStatus.last_error\<close>.
  It fails in its last part. With a stored queue that is not iterable the \<open>try\<close> block
  raises at once; with a stored configuration \<open>null\<close> it raises after the intent was
  dispatched. Either way the pass returns false with the flag cleared, and
  \<open>last_error\<close> is still null.
\<close>

theorem last_error_not_recorded_counterexample:
  "fst (sync_try always_ok 2000 (corrupt_world\<lparr> isSyncing := True \<rparr>)) = Some TypeError
   \<and> \<not> fst (syncPendingChanges no_options always_ok 2000 corrupt_world)
   \<and> \<not> isSyncing (snd (syncPendingChanges no_options always_ok 2000 corrupt_world))
   \<and> last_error (status (syncStore (snd (syncPendingChanges no_options always_ok 2000 corrupt_world))))
       = None
   \<and> fst (sync_try always_ok 2000 (null_config_world\<lparr> isSyncing := True \<rparr>)) = Some TypeError
   \<and> requests (snd (syncPendingChanges no_options always_ok 2000 null_config_world))
       = [dispatch_request create_milk]
   \<and> \<not> fst (syncPendingChanges no_options always_ok 2000 null_config_world)
   \<and> \<not> isSyncing (snd (syncPendingChanges no_options always_ok 2000 null_config_world))
   \<and> last_error (status (syncStore (snd (syncPendingChanges no_options always_ok 2000
                                            null_config_world)))) = None"
  by code_simp

text \<open>
  Claim C8, amended: a pass that starts (no other pass in flight or the call is
  forced, and the network is reachable) sets the service's \<open>isSyncing\<close> before its
  \<open>try\<close> block; every request of the pass is sent with the flag set, and the flag is
  still set when \<open>try\<close> and \<open>catch\<close> are done (nothing in the pass itself clears it;
  a forced call that overlaps would). \<open>finally\<close> then clears the flag on every exit
  path, also when the block raised after requests were sent. An exception of the
  block is caught and becomes the result false. The sync store, and with it
  \<open>SyncStatus.last_error\<close>, is not written.
\<close>

theorem pass_clears_flag:
  assumes "\<not> (isSyncing w \<and> forceSync options \<noteq> Some True)" "hasInternetAccess w"
  shows "\<exists>result w2.
           sync_attempt options remote now w = Some (result, w2)
         \<and> isSyncing w2
         \<and> syncing_seen w2 =
             syncing_seen w @ replicate (length (requests w2) - length (requests w)) True
         \<and> result = (fst (sync_try remote now (w\<lparr> isSyncing := True \<rparr>)) = None)
         \<and> syncPendingChanges options remote now w = (result, w2\<lparr> isSyncing := False \<rparr>)
         \<and> \<not> isSyncing (snd (syncPendingChanges options remote now w))
         \<and> syncStore (snd (syncPendingChanges options remote now w)) = syncStore w"
proof -
  let ?w1 = "w\<lparr> isSyncing := True \<rparr>"
  obtain e w2 where t: "sync_try remote now ?w1 = (e, w2)" by (cases "sync_try remote now ?w1")
  from sync_try_kept [of ?w1 remote now] t have "flag_kept ?w1 w2" by simp
  then have k: "isSyncing w2" "syncStore w2 = syncStore w"
    "syncing_seen w2 =
       syncing_seen w @ replicate (length (requests w2) - length (requests w)) True"
    by (simp_all add: flag_kept_def)
  from assms t have a: "sync_attempt options remote now w = Some (e = None, w2)"
    by (cases e) (auto simp: sync_attempt_def Let_def)
  then have "syncPendingChanges options remote now w = (e = None, w2\<lparr> isSyncing := False \<rparr>)"
    by (simp add: syncPendingChanges_def)
  with a k t show ?thesis by simp
qed

theorem pass_clears_flag_witness:
  "\<not> (isSyncing one_intent_world \<and> forceSync no_options \<noteq> Some True)
   \<and> hasInternetAccess one_intent_world
   \<and> (\<exists>result w2.
           sync_attempt no_options never_ok 2000 one_intent_world = Some (result, w2)
         \<and> isSyncing w2
         \<and> syncing_seen w2 =
             syncing_seen one_intent_world
               @ replicate (length (requests w2) - length (requests one_intent_world)) True
         \<and> result = (fst (sync_try never_ok 2000 (one_intent_world\<lparr> isSyncing := True \<rparr>)) = None)
         \<and> syncPendingChanges no_options never_ok 2000 one_intent_world
             = (result, w2\<lparr> isSyncing := False \<rparr>)
         \<and> \<not> isSyncing (snd (syncPendingChanges no_options never_ok 2000 one_intent_world))
         \<and> syncStore (snd (syncPendingChanges no_options never_ok 2000 one_intent_world))
             = syncStore one_intent_world)"
proof -
  have h1: "\<not> (isSyncing one_intent_world \<and> forceSync no_options \<noteq> Some True)"
    by code_simp
  have h2: "hasInternetAccess one_intent_world" by code_simp
  from pass_clears_flag [OF h1 h2, of never_ok 2000] h1 h2 show ?thesis by blast
qed

text \<open>
  Claim C9: when the key \<open>sync_queue\<close> is absent or its text is empty or not parseable
  JSON, \<open>getSyncQueue\<close> returns the empty list, and the queue operations built on it
  return normally: \<open>addToSyncQueue\<close> stores the one new action, \<open>removeFromSyncQueue\<close>
  stores the empty queue, \<open>processSyncQueue\<close> does nothing. Whatever the unreadable
  text held is gone. \<open>getSyncQueue\<close> itself is a total function of the stored content.
\<close>

theorem unreadable_queue_reads_empty:
  assumes "sync_queue w = None \<or> sync_queue w = Some Empty_text \<or> sync_queue w = Some Malformed"
  shows "getSyncQueue w = Queue [] \<and>
         addToSyncQueue a w = Inr (setSyncQueue [a] w) \<and>
         removeFromSyncQueue i w = Inr (setSyncQueue [] w) \<and>
         processSyncQueue remote w = Inr w"
  using assms
  by (auto simp: getSyncQueue_def addToSyncQueue_def removeFromSyncQueue_def processSyncQueue_def)

theorem unreadable_queue_reads_empty_witness:
  "(sync_queue garbled_world = None \<or> sync_queue garbled_world = Some Empty_text
      \<or> sync_queue garbled_world = Some Malformed)
   \<and> getSyncQueue garbled_world = Queue []
   \<and> addToSyncQueue create_milk garbled_world = Inr (setSyncQueue [create_milk] garbled_world)
   \<and> removeFromSyncQueue ''a1'' garbled_world = Inr (setSyncQueue [] garbled_world)
   \<and> processSyncQueue always_ok garbled_world = Inr garbled_world"
proof -
  have h: "sync_queue garbled_world = None \<or> sync_queue garbled_world = Some Empty_text
             \<or> sync_queue garbled_world = Some Malformed"
    by (simp add: garbled_world_def)
  from unreadable_queue_reads_empty [OF h, of create_milk "''a1''" always_ok] h
  show ?thesis by blast
qed

end
